(* ===== verification/Prelude.thy ===== *)
theory Prelude
  imports Main "HOL-Library.Word"
begin

unbundle bit_operations_syntax

text \<open>
  The part of the library every component imports: the outcome of a Go call (a value, a
  returned error or a run-time panic), the Go integer types and conversions, the pieces of
  the standard library several components call (\<^verbatim>\<open>encoding/binary\<close>, decimal
  printing and parsing of \<^verbatim>\<open>strconv\<close> and \<^verbatim>\<open>math/big\<close>,
  \<^verbatim>\<open>cmp.Compare\<close>), and the lemmas about them.
\<close>

section \<open>Lemma collections\<close>

named_theorems w128_hom \<open>an operation on two 64-bit limbs is the operation on 128-bit words\<close>
named_theorems go_defs \<open>definitions of the small helpers of the model\<close>

section \<open>Outcomes of a call\<close>

text \<open>
  A Go function that returns \<^verbatim>\<open>(T, error)\<close> and may index out of range has three
  outcomes. \<open>Panic\<close> is a run-time panic: nothing after it runs.
\<close>

datatype ('e, 'a) outcome = Ok 'a | Err 'e | Panic

fun obind :: "('e, 'a) outcome \<Rightarrow> ('a \<Rightarrow> ('e, 'b) outcome) \<Rightarrow> ('e, 'b) outcome" where
  "obind (Ok x) f = f x"
| "obind (Err e) f = Err e"
| "obind Panic f = Panic"

fun of_opt :: "'a option \<Rightarrow> ('e, 'a) outcome" where
  "of_opt (Some x) = Ok x"
| "of_opt None = Panic"

lemma obind_eq_Ok [simp]: "obind m f = Ok y \<longleftrightarrow> (\<exists>x. m = Ok x \<and> f x = Ok y)"
  by (cases m) auto

lemma obind_eq_Panic [simp]:
  "obind m f = Panic \<longleftrightarrow> m = Panic \<or> (\<exists>x. m = Ok x \<and> f x = Panic)"
  by (cases m) auto

lemma obind_assoc: "obind (obind m f) g = obind m (\<lambda>x. obind (f x) g)"
  by (cases m) auto

lemma of_opt_eq_Ok [simp]: "of_opt m = Ok x \<longleftrightarrow> m = Some x"
  by (cases m) auto

lemma of_opt_eq_Panic [simp]: "of_opt m = Panic \<longleftrightarrow> m = None"
  by (cases m) auto

lemma of_opt_neq_Err [simp]: "of_opt m \<noteq> Err e"
  by (cases m) auto

section \<open>Go integers\<close>

text \<open>
  \<^verbatim>\<open>int64\<close> and \<^verbatim>\<open>uint64\<close> are the same 64 bits; a conversion between
  them is the identity on the word, and the signed reading is \<open>sint\<close>.
\<close>

type_synonym byte = "8 word"
type_synonym uint16 = "16 word"
type_synonym uint32 = "32 word"
type_synonym uint64 = "64 word"
type_synonym int64 = "64 word"

text \<open>A shift by at least the width gives zero in Go, for any unsigned shift amount.\<close>

definition go_shl :: "uint64 \<Rightarrow> uint64 \<Rightarrow> uint64" where
  "go_shl x n = (if n < 64 then push_bit (unat n) x else 0)"

definition go_shr :: "uint64 \<Rightarrow> uint64 \<Rightarrow> uint64" where
  "go_shr x n = (if n < 64 then drop_bit (unat n) x else 0)"

lemma go_shl_eq: "go_shl x n = push_bit (unat n) x"
proof (cases "n < 64")
  case False
  then have "64 \<le> unat n" by (simp add: word_less_nat_alt)
  then have "push_bit (unat n) x = 0"
    by (auto intro!: bit_word_eqI simp: bit_push_bit_iff dest: bit_imp_le_length)
  with False show ?thesis by (simp add: go_shl_def)
qed (simp add: go_shl_def)

lemma go_shr_eq: "go_shr x n = drop_bit (unat n) x"
proof (cases "n < 64")
  case False
  then have "64 \<le> unat n" by (simp add: word_less_nat_alt)
  then have "drop_bit (unat n) x = 0"
    by (auto intro!: bit_word_eqI simp: bit_drop_bit_eq dest: bit_imp_le_length)
  with False show ?thesis by (simp add: go_shr_def)
qed (simp add: go_shr_def)

text \<open>\<^verbatim>\<open>cmp.Compare\<close> on integers.\<close>

definition cmp_Compare :: "'a::linorder \<Rightarrow> 'a \<Rightarrow> int" where
  "cmp_Compare a b = (if a < b then -1 else if a = b then 0 else 1)"

lemma cmp_Compare_0 [simp]: "cmp_Compare a b = 0 \<longleftrightarrow> a = b"
  by (auto simp: cmp_Compare_def)

lemma cmp_Compare_pos [simp]: "0 < cmp_Compare a b \<longleftrightarrow> b < a"
  by (auto simp: cmp_Compare_def)

lemma cmp_Compare_neg [simp]: "cmp_Compare a b < 0 \<longleftrightarrow> a < b"
  by (auto simp: cmp_Compare_def)

lemma cmp_Compare_nonneg [simp]: "0 \<le> cmp_Compare a b \<longleftrightarrow> b \<le> a"
  by (auto simp: cmp_Compare_def)

section \<open>Big-endian byte strings\<close>

text \<open>
  \<open>be_val\<close> is the number a byte string spells, most significant byte first, and
  \<open>be_bytes n x\<close> the \<open>n\<close> low bytes of \<open>x\<close>. \<open>be_read n\<close> is
  \<^verbatim>\<open>binary.BigEndian.Uint16\<close>, \<^verbatim>\<open>Uint32\<close> or \<^verbatim>\<open>Uint64\<close>
  for \<open>n\<close> = 2, 4 or 8: it reads the first \<open>n\<close> bytes and panics on a shorter slice.
\<close>

fun be_val :: "byte list \<Rightarrow> int" where
  "be_val [] = 0"
| "be_val (b # bs) = uint b * 256 ^ length bs + be_val bs"

fun be_bytes :: "nat \<Rightarrow> int \<Rightarrow> byte list" where
  "be_bytes 0 x = []"
| "be_bytes (Suc n) x = word_of_int (x div 256 ^ n) # be_bytes n x"

definition be_read :: "nat \<Rightarrow> byte list \<Rightarrow> int option" where
  "be_read n bs = (if length bs < n then None else Some (be_val (take n bs)))"

lemma length_be_bytes [simp]: "length (be_bytes n x) = n"
  by (induction n) auto

lemma be_val_bounds: "0 \<le> be_val bs \<and> be_val bs < 256 ^ length bs"
proof (induction bs)
  case (Cons b bs)
  have b: "0 \<le> uint b" "uint b + 1 \<le> 256"
    using uint_lt2p [of b] by simp_all
  have "uint b * 256 ^ length bs + be_val bs < (uint b + 1) * 256 ^ length bs"
    using Cons by (simp add: distrib_right)
  also have "\<dots> \<le> 256 * 256 ^ length bs"
    using b(2) by (rule mult_right_mono) simp
  finally show ?case using Cons b(1) by simp
qed simp

lemma be_bytes_mod: "be_bytes n (x mod 256 ^ n) = be_bytes n x"
proof -
  have "be_bytes m (x mod 256 ^ n) = be_bytes m x" if "m \<le> n" for m
    using that
  proof (induction m)
    case (Suc m)
    have "256 ^ n = 256 ^ m * (256 * 256 ^ (n - Suc m) :: int)"
      using Suc.prems by (metis Suc_diff_Suc Suc_le_eq le_add_diff_inverse less_imp_le power_Suc power_add)
    then have "x mod 256 ^ n = x mod 256 ^ m + 256 ^ m * (x div 256 ^ m mod (256 * 256 ^ (n - Suc m)))"
      by (simp add: zmod_zmult2_eq)
    then have "(x mod 256 ^ n) div 256 ^ m = (x div 256 ^ m) mod (256 * 256 ^ (n - Suc m))"
      by simp
    then have "(x mod 256 ^ n) div 256 ^ m mod 256 = x div 256 ^ m mod 256"
      by (simp add: mod_mod_cancel)
    then have "(word_of_int ((x mod 256 ^ n) div 256 ^ m) :: byte) = word_of_int (x div 256 ^ m)"
      by (simp add: word_of_int_eq_iff take_bit_eq_mod)
    with Suc show ?case by simp
  qed simp
  then show ?thesis by simp
qed

lemma be_val_be_bytes: "be_val (be_bytes n x) = x mod 256 ^ n"
proof (induction n)
  case (Suc n)
  have "x mod (256 ^ n * 256) = 256 ^ n * (x div 256 ^ n mod 256) + x mod 256 ^ n"
    by (rule zmod_zmult2_eq) simp
  then show ?case
    using Suc by (simp add: mult.commute uint_word_of_int)
qed simp

lemma be_bytes_be_val: "be_bytes (length bs) (be_val bs) = bs"
proof (induction bs)
  case (Cons b bs)
  have bnd: "0 \<le> be_val bs" "be_val bs < 256 ^ length bs"
    using be_val_bounds [of bs] by auto
  then have "(uint b * 256 ^ length bs + be_val bs) div 256 ^ length bs = uint b"
    by simp
  moreover have "be_bytes (length bs) (uint b * 256 ^ length bs + be_val bs) = bs"
    using be_bytes_mod [of "length bs" "uint b * 256 ^ length bs + be_val bs"] bnd Cons
    by simp
  ultimately show ?case by simp
qed simp

lemma be_read_append:
  "length xs = n \<Longrightarrow> be_read n (xs @ ys) = Some (be_val xs)"
  by (simp add: be_read_def)

lemma be_read_be_bytes:
  "be_read n (be_bytes n x @ ys) = Some (x mod 256 ^ n)"
  by (simp add: be_read_append be_val_be_bytes)

section \<open>Decimal numerals\<close>

text \<open>
  \<open>dec_nat\<close> and \<open>dec_int\<close> print in base 10 as \<^verbatim>\<open>strconv\<close> and
  \<^verbatim>\<open>big.Int.Append(nil, 10)\<close> do; \<open>parse_nat\<close> accepts a non-empty run of
  digits and \<open>parse_int\<close> an optional sign before it, as
  \<^verbatim>\<open>big.Int.SetString(s, 10)\<close> does.
\<close>

definition digit_char :: "nat \<Rightarrow> char" where
  "digit_char d = char_of (48 + d)"

definition is_digit :: "char \<Rightarrow> bool" where
  "is_digit c \<longleftrightarrow> (48::nat) \<le> of_char c \<and> of_char c \<le> (57::nat)"

definition digit_val :: "char \<Rightarrow> nat" where
  "digit_val c = of_char c - 48"

fun dec_nat :: "nat \<Rightarrow> string" where
  "dec_nat n = (if n < 10 then [digit_char n] else dec_nat (n div 10) @ [digit_char (n mod 10)])"

declare dec_nat.simps [simp del]

definition dec_int :: "int \<Rightarrow> string" where
  "dec_int k = (if k < 0 then CHR ''-'' # dec_nat (nat (- k)) else dec_nat (nat k))"

fun dec_acc :: "nat \<Rightarrow> string \<Rightarrow> nat" where
  "dec_acc n [] = n"
| "dec_acc n (c # cs) = dec_acc (10 * n + digit_val c) cs"

definition parse_nat :: "string \<Rightarrow> nat option" where
  "parse_nat s = (if s \<noteq> [] \<and> list_all is_digit s then Some (dec_acc 0 s) else None)"

definition parse_int :: "string \<Rightarrow> int option" where
  "parse_int s =
     (case s of [] \<Rightarrow> None
      | c # cs \<Rightarrow>
         if c = CHR ''-'' then map_option (\<lambda>n. - int n) (parse_nat cs)
         else if c = CHR ''+'' then map_option int (parse_nat cs)
         else map_option int (parse_nat s))"

lemma of_char_digit_char: "d < 10 \<Longrightarrow> (of_char (digit_char d) :: nat) = 48 + d"
  by (simp add: digit_char_def)

lemma digit_char_props [simp]:
  "d < 10 \<Longrightarrow> is_digit (digit_char d)" "d < 10 \<Longrightarrow> digit_val (digit_char d) = d"
  by (simp_all add: is_digit_def digit_val_def of_char_digit_char)

lemma dec_acc_append: "dec_acc n (xs @ ys) = dec_acc (dec_acc n xs) ys"
  by (induction xs arbitrary: n) simp_all

lemma dec_nat_digits: "dec_nat n \<noteq> [] \<and> list_all is_digit (dec_nat n)"
proof (induction n rule: dec_nat.induct)
  case (1 n)
  then show ?case by (subst (1 2) dec_nat.simps) simp
qed

lemma dec_acc_dec_nat: "dec_acc 0 (dec_nat n) = n"
proof (induction n rule: dec_nat.induct)
  case (1 n)
  then show ?case by (subst dec_nat.simps) (simp add: dec_acc_append)
qed

lemma parse_nat_dec_nat [simp]: "parse_nat (dec_nat n) = Some n"
  using dec_nat_digits [of n] by (simp add: parse_nat_def dec_acc_dec_nat)

lemma not_digit_sign: "\<not> is_digit CHR ''-''" "\<not> is_digit CHR ''+''"
  by (simp_all add: is_digit_def)

lemma parse_int_dec_int [simp]: "parse_int (dec_int k) = Some k"
proof (cases "k < 0")
  case False
  obtain c cs where c: "dec_nat (nat k) = c # cs" "is_digit c"
    using dec_nat_digits [of "nat k"] by (cases "dec_nat (nat k)") auto
  then have "c \<noteq> CHR ''-''" "c \<noteq> CHR ''+''" using not_digit_sign by auto
  then have "parse_int (dec_int k) = map_option int (parse_nat (dec_nat (nat k)))"
    using False c by (simp add: dec_int_def parse_int_def)
  then show ?thesis using False by simp
qed (simp add: dec_int_def parse_int_def)

end
