(* ===== verification/Int128.thy ===== *)
theory Int128
  imports Prelude
begin

text \<open>
  Model of \<^verbatim>\<open>src/internal/impl/snowflake/streaming/int128/int128.go\<close>: a signed
  128-bit integer as a high and a low 64-bit limb. Every operation is translated limb by
  limb, with the carries of \<^verbatim>\<open>math/bits\<close>, and is then shown to be the operation on
  128-bit words (collection \<open>w128_hom\<close>); the signed reading of that word is
  \<open>num_val\<close>, which the ordering, width, byte and decimal lemmas speak about.
\<close>

section \<open>The standard library's \<^verbatim>\<open>math/bits\<close>\<close>

definition bits_Add64 :: "uint64 \<Rightarrow> uint64 \<Rightarrow> uint64 \<Rightarrow> uint64 \<times> uint64" where
  "bits_Add64 x y carry =
     (x + y + carry, if uint x + uint y + uint carry \<ge> 2 ^ 64 then 1 else 0)"

definition bits_Sub64 :: "uint64 \<Rightarrow> uint64 \<Rightarrow> uint64 \<Rightarrow> uint64 \<times> uint64" where
  "bits_Sub64 x y borrow =
     (x - y - borrow, if uint x < uint y + uint borrow then 1 else 0)"

definition bits_Mul64 :: "uint64 \<Rightarrow> uint64 \<Rightarrow> uint64 \<times> uint64" where
  "bits_Mul64 x y =
     (word_of_int (uint x * uint y div 2 ^ 64), word_of_int (uint x * uint y))"

fun bit_len :: "nat \<Rightarrow> nat" where
  "bit_len n = (if n = 0 then 0 else Suc (bit_len (n div 2)))"

declare bit_len.simps [simp del]

definition bits_LeadingZeros64 :: "uint64 \<Rightarrow> int" where
  "bits_LeadingZeros64 x = 64 - int (bit_len (unat x))"

section \<open>The type and its operations\<close>

record Num =
  hi :: int64
  lo :: uint64

definition New :: "int64 \<Rightarrow> uint64 \<Rightarrow> Num" where
  "New h l = \<lparr>hi = h, lo = l\<rparr>"

definition FromInt64 :: "int64 \<Rightarrow> Num" where
  "FromInt64 v = \<lparr>hi = (if sint v < 0 then NOT 0 else 0), lo = v\<rparr>"

definition FromUint64 :: "uint64 \<Rightarrow> Num" where
  "FromUint64 v = \<lparr>hi = 0, lo = v\<rparr>"

definition zero_Num :: Num where
  "zero_Num = \<lparr>hi = 0, lo = 0\<rparr>"

definition Add :: "Num \<Rightarrow> Num \<Rightarrow> Num" where
  "Add a b =
     (let (l, carry) = bits_Add64 (lo a) (lo b) 0;
          (h, _) = bits_Add64 (hi a) (hi b) carry
      in \<lparr>hi = h, lo = l\<rparr>)"

definition Sub :: "Num \<Rightarrow> Num \<Rightarrow> Num" where
  "Sub a b =
     (let (l, carry) = bits_Sub64 (lo a) (lo b) 0;
          (h, _) = bits_Sub64 (hi a) (hi b) carry
      in \<lparr>hi = h, lo = l\<rparr>)"

definition Mul :: "Num \<Rightarrow> Num \<Rightarrow> Num" where
  "Mul a b =
     (let (h, l) = bits_Mul64 (lo a) (lo b)
      in \<lparr>hi = h + (hi a * lo b + lo a * hi b), lo = l\<rparr>)"

definition fls128 :: "Num \<Rightarrow> int" where
  "fls128 n =
     (if hi n \<noteq> 0 then 127 - bits_LeadingZeros64 (hi n)
      else 63 - bits_LeadingZeros64 (lo n))"

definition Neg :: "Num \<Rightarrow> Num" where
  "Neg n =
     (let l = NOT (lo n) + 1; h = NOT (hi n)
      in \<lparr>hi = (if l = 0 then h + 1 else h), lo = l\<rparr>)"

definition IsNegative :: "Num \<Rightarrow> bool" where
  "IsNegative i \<longleftrightarrow> sint (hi i) < 0"

definition Abs_Num :: "Num \<Rightarrow> Num" where
  "Abs_Num i = (if IsNegative i then Neg i else i)"

definition Shl :: "Num \<Rightarrow> uint64 \<Rightarrow> Num" where
  "Shl v amt =
     (let n = amt - 64; m = 64 - amt
      in \<lparr>hi = go_shl (hi v) amt OR go_shl (lo v) n OR go_shr (lo v) m,
          lo = go_shl (lo v) amt\<rparr>)"

definition Or_Num :: "Num \<Rightarrow> Num \<Rightarrow> Num" where
  "Or_Num a b = \<lparr>hi = hi a OR hi b, lo = lo a OR lo b\<rparr>"

definition Less :: "Num \<Rightarrow> Num \<Rightarrow> bool" where
  "Less a b = (if hi a = hi b then lo a < lo b else sint (hi a) < sint (hi b))"

definition Greater :: "Num \<Rightarrow> Num \<Rightarrow> bool" where
  "Greater a b = (if hi a = hi b then lo b < lo a else sint (hi b) < sint (hi a))"

text \<open>\<open>b[0:8]\<close> and \<open>b[8:16]\<close> panic on a slice of fewer than 16 bytes.\<close>

definition FromBigEndian :: "byte list \<Rightarrow> Num option" where
  "FromBigEndian b =
     (if length b < 16 then None
      else Some \<lparr>hi = word_of_int (be_val (take 8 b)), lo = word_of_int (be_val (take 8 (drop 8 b)))\<rparr>)"

definition ToBigEndian :: "Num \<Rightarrow> byte list" where
  "ToBigEndian i = be_bytes 8 (uint (hi i)) @ be_bytes 8 (uint (lo i))"

definition AppendBigEndian :: "Num \<Rightarrow> byte list \<Rightarrow> byte list" where
  "AppendBigEndian i b =
     (let b = b @ be_bytes 8 (uint (hi i)) in b @ be_bytes 8 (uint (lo i)))"

definition ToInt64 :: "Num \<Rightarrow> int64" where
  "ToInt64 i = lo i"

definition ToInt32 :: "Num \<Rightarrow> 32 word" where
  "ToInt32 i = ucast (lo i)"

definition ToInt16 :: "Num \<Rightarrow> 16 word" where
  "ToInt16 i = ucast (lo i)"

definition ToInt8 :: "Num \<Rightarrow> 8 word" where
  "ToInt8 i = ucast (lo i)"

definition Min_Num :: "Num \<Rightarrow> Num \<Rightarrow> Num" where
  "Min_Num a b = (if Less a b then a else b)"

definition Max_Num :: "Num \<Rightarrow> Num \<Rightarrow> Num" where
  "Max_Num a b = (if Greater a b then a else b)"

section \<open>Constants\<close>

definition MaxInt128 :: Num where
  "MaxInt128 = the (FromBigEndian (0x7F # replicate 15 0xFF))"

definition MinInt128 :: Num where
  "MinInt128 = the (FromBigEndian (0x80 # replicate 15 0x00))"

definition MaxInt64 :: Num where "MaxInt64 = FromInt64 (2 ^ 63 - 1)"
definition MinInt64 :: Num where "MinInt64 = FromInt64 (- (2 ^ 63))"
definition MaxInt32 :: Num where "MaxInt32 = FromInt64 (2 ^ 31 - 1)"
definition MinInt32 :: Num where "MinInt32 = FromInt64 (- (2 ^ 31))"
definition MaxInt16 :: Num where "MaxInt16 = FromInt64 (2 ^ 15 - 1)"
definition MinInt16 :: Num where "MinInt16 = FromInt64 (- (2 ^ 15))"
definition MaxInt8 :: Num where "MaxInt8 = FromInt64 (2 ^ 7 - 1)"
definition MinInt8 :: Num where "MinInt8 = FromInt64 (- (2 ^ 7))"

definition one_Num :: Num where "one_Num = FromUint64 1"
definition ten_Num :: Num where "ten_Num = FromUint64 10"

definition ByteWidth :: "Num \<Rightarrow> nat" where
  "ByteWidth v =
     (if IsNegative v then
        (if \<not> Less v MinInt8 then 1
         else if \<not> Less v MinInt16 then 2
         else if \<not> Less v MinInt32 then 4
         else if \<not> Less v MinInt64 then 8
         else 16)
      else
        (if \<not> Greater v MaxInt8 then 1
         else if \<not> Greater v MaxInt16 then 2
         else if \<not> Greater v MaxInt32 then 4
         else if \<not> Greater v MaxInt64 then 8
         else 16))"

section \<open>Text form\<close>

text \<open>
  \<open>big_Bits\<close> is \<^verbatim>\<open>big.Int.Bits\<close>: the absolute value as 64-bit limbs, least
  significant first, empty for zero. The method \<^verbatim>\<open>bigInt()\<close> is
  \<open>bigInt_method\<close>, the function of the same name \<open>bigInt\<close>.
\<close>

fun big_Bits :: "nat \<Rightarrow> uint64 list" where
  "big_Bits m = (if m = 0 then [] else word_of_nat m # big_Bits (m div 2 ^ 64))"

declare big_Bits.simps [simp del]

definition bigInt_method :: "Num \<Rightarrow> int" where
  "bigInt_method i = push_bit 64 (sint (hi i)) OR uint (lo i)"

definition bigInt :: "int \<Rightarrow> Num option" where
  "bigInt bi =
     (if \<not> (bigInt_method MinInt128 \<le> bi \<and> bi \<le> bigInt_method MaxInt128) then None
      else
        (let b = big_Bits (nat \<bar>bi\<bar>)
         in if length b = 0 then Some zero_Num
            else
              (let n = zero_Num\<lparr>lo := b ! 0\<rparr>;
                   n = (if 1 < length b then n\<lparr>hi := b ! 1\<rparr> else n)
               in Some (if bi < 0 then Neg n else n))))"

definition Parse :: "string \<Rightarrow> Num option" where
  "Parse str = (case parse_int str of None \<Rightarrow> None | Some bi \<Rightarrow> bigInt bi)"

definition String_Num :: "Num \<Rightarrow> string" where
  "String_Num i = dec_int (bigInt_method i)"

text \<open>\<^verbatim>\<open>MustParse\<close> panics where \<^verbatim>\<open>Parse\<close> reports failure.\<close>

definition MustParse :: "string \<Rightarrow> (unit, Num) outcome" where
  "MustParse str = (case Parse str of None \<Rightarrow> Panic | Some n \<Rightarrow> Ok n)"

definition MarshalJSON :: "Num \<Rightarrow> string" where
  "MarshalJSON i = dec_int (bigInt_method i)"

section \<open>The abstract value\<close>

text \<open>
  \<open>w128\<close> is the 128-bit word the two limbs spell; \<open>num_val\<close> is its signed reading.
\<close>

definition w128 :: "Num \<Rightarrow> 128 word" where
  "w128 n = word_cat (hi n) (lo n)"

definition num_val :: "Num \<Rightarrow> int" where
  "num_val n = sint (w128 n)"

subsection \<open>The limb operations are the operations on 128-bit words\<close>

lemma w128_eq: "w128 n = ucast (hi n) * 2 ^ 64 + ucast (lo n)"
  by (simp add: w128_def word_cat_eq push_bit_eq_mult mult.commute)

lemma bit_w128: "bit (w128 n) i \<longleftrightarrow>
    (if i < 64 then bit (lo n) i else i < 128 \<and> bit (hi n) (i - 64))"
  by (simp add: w128_def bit_word_cat_iff)

lemma take_bit_uint64: "take_bit 64 (uint (x :: 64 word)) = uint x"
  using uint_lt2p [of x] by (simp add: take_bit_int_eq_self)

lemma uint_w128: "uint (w128 n) = uint (hi n) * 2 ^ 64 + uint (lo n)"
proof -
  have "uint (w128 n) = take_bit 128 (concat_bit 64 (uint (lo n)) (uint (hi n)))"
    by (simp add: w128_def word_cat_eq' uint_word_of_int_eq)
  also have "\<dots> = concat_bit 64 (uint (lo n)) (uint (hi n))"
    by (simp add: take_bit_concat_bit_eq take_bit_uint64)
  finally show ?thesis
    by (simp add: concat_bit_eq push_bit_eq_mult take_bit_uint64)
qed

lemma w128_inject: "w128 a = w128 b \<longleftrightarrow> a = b"
proof
  assume "w128 a = w128 b"
  then have eq: "uint (hi a) * 2 ^ 64 + uint (lo a) = uint (hi b) * 2 ^ 64 + uint (lo b)"
    by (metis uint_w128)
  have *: "uint (lo n) div 2 ^ 64 = 0" for n :: Num
    using uint_lt2p [of "lo n"] by simp
  have "uint (hi a) = uint (hi b)"
    using arg_cong [OF eq, of "\<lambda>k. k div 2 ^ 64"] * by simp
  moreover have "uint (lo a) = uint (lo b)"
    using eq calculation by simp
  ultimately show "a = b" by (cases a; cases b) (simp add: word_uint_eq_iff)
qed simp

lemma mod_shift_double: "((k::int) mod 2 ^ n) * 2 ^ n = (k * 2 ^ n) mod 2 ^ (n + n)"
  by (simp only: power_add mod_mult_mult2)

lemma hi_mod: "of_int (k mod 2 ^ 64) * 2 ^ 64 = (of_int k * 2 ^ 64 :: 128 word)"
proof -
  have "word_of_int ((k mod 2 ^ 64) * 2 ^ 64) = (word_of_int (take_bit 128 (k * 2 ^ 64)) :: 128 word)"
    using mod_shift_double [of k 64] by (simp only: take_bit_eq_mod) simp
  also have "\<dots> = word_of_int (k * 2 ^ 64)"
    by (rule wi_bintr) simp
  finally show ?thesis by (simp only: of_int_mult of_int_power of_int_numeral)
qed

lemma ucast_int: "(ucast (x :: 64 word) :: 128 word) = of_int (uint x)"
  by (rule ucast_eq)

lemma uint64_ariths:
  fixes x y :: "64 word"
  shows "uint (x + y) = (uint x + uint y) mod 2 ^ 64"
    and "uint (x - y) = (uint x - uint y) mod 2 ^ 64"
    and "uint (x * y) = (uint x * uint y) mod 2 ^ 64"
    and "uint (- x) = (- uint x) mod 2 ^ 64"
  by (simp_all add: uint_word_ariths)

lemma hi_hom:
  fixes x y :: "64 word"
  shows "ucast (x + y) * 2 ^ 64 = (ucast x + ucast y) * (2 ^ 64 :: 128 word)"
    and "ucast (x - y) * 2 ^ 64 = (ucast x - ucast y) * (2 ^ 64 :: 128 word)"
    and "ucast (x * y) * 2 ^ 64 = (ucast x * ucast y) * (2 ^ 64 :: 128 word)"
  by (simp_all only: ucast_int uint64_ariths hi_mod of_int_add of_int_diff of_int_mult)

lemma Add_w128 [w128_hom]: "w128 (Add a b) = w128 a + w128 b"
proof -
  let ?c = "if 2 ^ 64 \<le> uint (lo a) + uint (lo b) then 1 else 0 :: 64 word"
  have lo: "ucast (lo a + lo b) + ucast ?c * 2 ^ 64 = (ucast (lo a) + ucast (lo b) :: 128 word)"
  proof -
    have "uint (lo a + lo b) + uint ?c * 2 ^ 64 = uint (lo a) + uint (lo b)"
      using uint_lt2p [of "lo a"] uint_lt2p [of "lo b"] by (simp add: uint_plus_if')
    then have "of_int (uint (lo a + lo b) + uint ?c * 2 ^ 64) = (of_int (uint (lo a) + uint (lo b)) :: 128 word)"
      by (simp only:)
    then show ?thesis
      by (simp only: ucast_int of_int_add of_int_mult of_int_power of_int_numeral)
  qed
  have "w128 (Add a b) = ucast (hi a + hi b + ?c) * 2 ^ 64 + ucast (lo a + lo b)"
    by (simp add: Add_def bits_Add64_def w128_eq)
  also have "\<dots> = (ucast (hi a) + ucast (hi b)) * 2 ^ 64 + (ucast (lo a + lo b) + ucast ?c * 2 ^ 64)"
    by (simp only: hi_hom distrib_right left_diff_distrib) (simp only: algebra_simps)
  also have "\<dots> = w128 a + w128 b"
    by (simp only: lo w128_eq) (simp only: algebra_simps)
  finally show ?thesis .
qed

lemma Sub_w128 [w128_hom]: "w128 (Sub a b) = w128 a - w128 b"
proof -
  let ?c = "if uint (lo a) < uint (lo b) then 1 else 0 :: 64 word"
  have lo: "ucast (lo a - lo b) - ucast ?c * 2 ^ 64 = (ucast (lo a) - ucast (lo b) :: 128 word)"
  proof -
    have "uint (lo a - lo b) - uint ?c * 2 ^ 64 = uint (lo a) - uint (lo b)"
      using uint_lt2p [of "lo a"] uint_lt2p [of "lo b"] by (simp add: uint_sub_if')
    then have "of_int (uint (lo a - lo b) - uint ?c * 2 ^ 64) = (of_int (uint (lo a) - uint (lo b)) :: 128 word)"
      by (simp only:)
    then show ?thesis
      by (simp only: ucast_int of_int_diff of_int_mult of_int_power of_int_numeral)
  qed
  have "w128 (Sub a b) = ucast (hi a - hi b - ?c) * 2 ^ 64 + ucast (lo a - lo b)"
    by (simp add: Sub_def bits_Sub64_def w128_eq)
  also have "\<dots> = (ucast (hi a) - ucast (hi b)) * 2 ^ 64 + (ucast (lo a - lo b) - ucast ?c * 2 ^ 64)"
    by (simp only: hi_hom distrib_right left_diff_distrib) (simp only: algebra_simps)
  also have "\<dots> = w128 a - w128 b"
    by (simp only: lo w128_eq) (simp only: algebra_simps)
  finally show ?thesis .
qed

lemma B_B_0: "(2 ^ 64 :: 128 word) * 2 ^ 64 = 0"
  by simp

lemma div_2_64: "q < 2 ^ 64 * 2 ^ 64 \<Longrightarrow> q div 2 ^ 64 < (2 ^ 64 :: int)"
  by simp

lemma Mul_w128 [w128_hom]: "w128 (Mul a b) = w128 a * w128 b"
proof -
  let ?p = "uint (lo a) * uint (lo b)"
  let ?h = "word_of_int (?p div 2 ^ 64) :: 64 word" and ?l = "word_of_int ?p :: 64 word"
  have "?p < 2 ^ 64 * 2 ^ 64"
    using uint_lt2p [of "lo a"] uint_lt2p [of "lo b"] by (intro mult_strict_mono) simp_all
  then have "?p div 2 ^ 64 < 2 ^ 64"
    using div_2_64 by blast
  then have h: "uint ?h = ?p div 2 ^ 64"
    by (simp add: uint_word_of_int pos_imp_zdiv_nonneg_iff)
  have l: "uint ?l = ?p mod 2 ^ 64"
    by (simp add: uint64_ariths)
  have "uint ?h * 2 ^ 64 + uint ?l = ?p" 
    unfolding h l by (rule div_mult_mod_eq)
  then have "of_int (uint ?h * 2 ^ 64 + uint ?l) = (of_int ?p :: 128 word)"
    by (simp only:)
  then have lo: "ucast ?h * 2 ^ 64 + ucast ?l = (ucast (lo a) * ucast (lo b) :: 128 word)"
    by (simp only: ucast_int of_int_add of_int_mult of_int_power of_int_numeral)
  have "w128 (Mul a b) = ucast (?h + (hi a * lo b + lo a * hi b)) * 2 ^ 64 + ucast ?l"
    by (simp add: Mul_def bits_Mul64_def w128_eq)
  also have "\<dots> = (ucast (hi a) * ucast (lo b) + ucast (lo a) * ucast (hi b)) * 2 ^ 64 + (ucast ?h * 2 ^ 64 + ucast ?l)"
    by (simp only: hi_hom distrib_right left_diff_distrib) (simp only: algebra_simps)
  also have "\<dots> = (ucast (hi a) * 2 ^ 64 + ucast (lo a)) * (ucast (hi b) * 2 ^ 64 + ucast (lo b)) - (ucast (hi a) * ucast (hi b)) * (2 ^ 64 * 2 ^ 64)"
    unfolding lo by (simp only: algebra_simps)
  also have "\<dots> = w128 a * w128 b"
    by (simp only: B_B_0 w128_eq mult_zero_right diff_zero)
  finally show ?thesis .
qed

lemma NOT_plus_1: "NOT x + 1 = - (x :: 64 word)"
  by (simp add: not_eq_complement)

lemma Neg_w128 [w128_hom]: "w128 (Neg n) = - w128 n"
proof (cases "lo n = 0")
  case True
  have "w128 (Neg n) = ucast (0 - hi n) * 2 ^ 64"
    using True by (simp add: Neg_def NOT_plus_1 w128_eq not_eq_complement)
  also have "\<dots> = - w128 n"
    using True by (simp only: hi_hom w128_eq) simp
  finally show ?thesis .
next
  case False
  then have "uint (- lo n) = 2 ^ 64 - uint (lo n)"
    using uint_lt2p [of "lo n"] by (simp add: uint_word_ariths zmod_zminus1_eq_if uint_0_iff)
  then have "of_int (uint (- lo n)) = (of_int (2 ^ 64 - uint (lo n)) :: 128 word)"
    by (simp only:)
  then have lo: "ucast (- lo n) = (2 ^ 64 - ucast (lo n) :: 128 word)"
    by (simp only: ucast_int of_int_diff of_int_power of_int_numeral)
  have "w128 (Neg n) = ucast (0 - hi n - 1) * 2 ^ 64 + ucast (- lo n)"
    using False by (simp add: Neg_def NOT_plus_1 w128_eq not_eq_complement)
  also have "\<dots> = - w128 n"
    by (simp only: hi_hom lo w128_eq left_diff_distrib) simp
  finally show ?thesis .
qed

lemma Or_w128 [w128_hom]: "w128 (Or_Num a b) = w128 a OR w128 b"
  by (rule bit_word_eqI) (simp add: bit_w128 Or_Num_def bit_or_iff)

lemma unat64_less: "unat (x :: 64 word) < 2 ^ 64"
  using unsigned_less [of x, where ?'a = nat] by simp

lemma unat_shift_amounts:
  fixes amt :: "64 word"
  shows "unat (amt - 64) = (if 64 \<le> unat amt then unat amt - 64 else 2 ^ 64 + unat amt - 64)"
    and "unat (64 - amt) = (if unat amt \<le> 64 then 64 - unat amt else 2 ^ 64 + 64 - unat amt)"
  using unat64_less [of amt] by (simp_all add: unat_sub_if')

lemma Shl_w128 [w128_hom]: "w128 (Shl v amt) = push_bit (unat amt) (w128 v)"
proof (rule bit_word_eqI)
  fix i assume i: "i < LENGTH(128)"
  have lt: "unat amt < 2 ^ 64" using unat64_less [of amt] by simp
  show "bit (w128 (Shl v amt)) i = bit (push_bit (unat amt) (w128 v)) i"
  proof (cases "i < 64")
    case True
    then show ?thesis
      by (auto simp: bit_w128 Shl_def go_shl_eq bit_push_bit_iff)
  next
    case False
    with i lt show ?thesis
      by (auto simp: bit_w128 Shl_def go_shl_eq go_shr_eq bit_push_bit_iff bit_drop_bit_eq
          bit_or_iff unat_shift_amounts algebra_simps dest: bit_imp_le_length)
  qed
qed

lemma num_val_range: "- (2 ^ 127) \<le> num_val n" "num_val n < 2 ^ 127"
  using sint_range_size [of "w128 n"] by (simp_all add: num_val_def word_size)

lemma sint_of_int128:
  "- (2 ^ 127) \<le> k \<Longrightarrow> k < 2 ^ 127 \<Longrightarrow> sint (word_of_int k :: 128 word) = k"
  by (simp add: sint_sbintrunc' signed_take_bit_int_eq_self)

lemma num_val_eq: "num_val n = sint (hi n) * 2 ^ 64 + uint (lo n)"
proof -
  have h: "uint (hi n) = sint (hi n) mod 2 ^ 64"
    by (simp add: uint_sint take_bit_eq_mod)
  have "w128 n = of_int (sint (hi n) mod 2 ^ 64) * 2 ^ 64 + of_int (uint (lo n))"
    by (simp only: w128_eq ucast_int h)
  then have w: "w128 n = word_of_int (sint (hi n) * 2 ^ 64 + uint (lo n))"
    by (simp only: hi_mod of_int_add of_int_mult of_int_power of_int_numeral)
  have "- (2 ^ 63) \<le> sint (hi n)" "sint (hi n) < 2 ^ 63"
    using sint_range_size [of "hi n"] by (simp_all add: word_size)
  then have r: "- (2 ^ 127) \<le> sint (hi n) * 2 ^ 64 + uint (lo n)"
    "sint (hi n) * 2 ^ 64 + uint (lo n) < 2 ^ 127"
    using uint_lt2p [of "lo n"] uint_ge_0 [of "lo n"] by (simp_all del: uint_ge_0 unsigned_greater_eq)
  from sint_of_int128 [OF r] show ?thesis
    by (simp only: num_val_def w)
qed

lemma num_val_word: "word_of_int (num_val a) = w128 a"
  by (simp add: num_val_def)

lemma num_val_inject: "num_val a = num_val b \<longleftrightarrow> a = b"
  by (metis num_val_word w128_inject)

lemma limbs_less:
  fixes h h' l l' :: int
  assumes "0 \<le> l" "l < 2 ^ 64" "0 \<le> l'" "l' < 2 ^ 64"
  shows "h * 2 ^ 64 + l < h' * 2 ^ 64 + l' \<longleftrightarrow> h < h' \<or> h = h' \<and> l < l'"
  using assms by auto

lemma num_val_less: "num_val a < num_val b \<longleftrightarrow>
    sint (hi a) < sint (hi b) \<or> hi a = hi b \<and> lo a < lo b"
proof -
  have "hi a = hi b \<longleftrightarrow> sint (hi a) = sint (hi b)"
    by (auto intro: signed_word_eqI)
  moreover have "lo a < lo b \<longleftrightarrow> uint (lo a) < uint (lo b)"
    by (simp add: word_less_def)
  moreover have "uint (lo n) < 2 ^ 64" for n :: Num
    using uint_lt2p [of "lo n"] by simp
  ultimately show ?thesis
    by (simp only: num_val_eq limbs_less uint_ge_0)
qed

lemma Less_num_val: "Less a b \<longleftrightarrow> num_val a < num_val b"
  by (auto simp: Less_def num_val_less)

lemma Greater_num_val: "Greater a b \<longleftrightarrow> num_val b < num_val a"
proof -
  have "Greater a b \<longleftrightarrow> Less b a" by (auto simp: Greater_def Less_def)
  then show ?thesis by (simp add: Less_num_val)
qed

lemma mod_neg64: "- (2 ^ 64) \<le> k \<Longrightarrow> k < 0 \<Longrightarrow> k mod 2 ^ 64 = k + (2 ^ 64 :: int)"
  using mod_pos_pos_trivial [of "k + 2 ^ 64" "2 ^ 64"] by simp

lemma FromInt64_num_val: "num_val (FromInt64 v) = sint v"
  using sint_range_size [of v] mod_neg64 [of "sint v"]
  by (auto simp: FromInt64_def num_val_eq word_size uint_sint take_bit_eq_mod)

lemma FromUint64_num_val: "num_val (FromUint64 v) = uint v"
  by (simp add: FromUint64_def num_val_eq)

lemma IsNegative_num_val: "IsNegative a \<longleftrightarrow> num_val a < 0"
  using num_val_less [of a "FromUint64 0"] 
  by (simp add: IsNegative_def FromUint64_num_val) (simp add: FromUint64_def)

lemma zero_Num_num_val: "num_val zero_Num = 0"
  by (simp add: zero_Num_def num_val_eq)

subsection \<open>Signed values, ranges and widths\<close>

lemma num_val_hom:
  "num_val (Add a b) = signed_take_bit 127 (num_val a + num_val b)"
  "num_val (Sub a b) = signed_take_bit 127 (num_val a - num_val b)"
  "num_val (Mul a b) = signed_take_bit 127 (num_val a * num_val b)"
  "num_val (Neg a) = signed_take_bit 127 (- num_val a)"
proof -
  have *: "sint (word_of_int k :: 128 word) = signed_take_bit 127 k" for k
    by (simp add: sint_sbintrunc')
  have "num_val (Add a b) = sint (word_of_int (num_val a + num_val b) :: 128 word)"
    "num_val (Sub a b) = sint (word_of_int (num_val a - num_val b) :: 128 word)"
    "num_val (Mul a b) = sint (word_of_int (num_val a * num_val b) :: 128 word)"
    "num_val (Neg a) = sint (word_of_int (- num_val a) :: 128 word)"
    by (simp_all only: num_val_def [of "Add a b"] num_val_def [of "Sub a b"] num_val_def [of "Mul a b"]
        num_val_def [of "Neg a"] w128_hom of_int_add of_int_diff of_int_mult of_int_minus num_val_word)
  then show "num_val (Add a b) = signed_take_bit 127 (num_val a + num_val b)"
    "num_val (Sub a b) = signed_take_bit 127 (num_val a - num_val b)"
    "num_val (Mul a b) = signed_take_bit 127 (num_val a * num_val b)"
    "num_val (Neg a) = signed_take_bit 127 (- num_val a)"
    by (simp_all only: *)
qed

definition in_range128 :: "int \<Rightarrow> bool" where
  "in_range128 k \<longleftrightarrow> - (2 ^ 127) \<le> k \<and> k < 2 ^ 127"

lemma in_range128_num_val [simp]: "in_range128 (num_val n)"
  using num_val_range [of n] by (simp add: in_range128_def)

lemma num_val_exact:
  "in_range128 (num_val a + num_val b) \<Longrightarrow> num_val (Add a b) = num_val a + num_val b"
  "in_range128 (num_val a - num_val b) \<Longrightarrow> num_val (Sub a b) = num_val a - num_val b"
  "in_range128 (num_val a * num_val b) \<Longrightarrow> num_val (Mul a b) = num_val a * num_val b"
  "in_range128 (- num_val a) \<Longrightarrow> num_val (Neg a) = - num_val a"
  by (simp_all only: num_val_hom in_range128_def signed_take_bit_int_eq_self)

lemma Abs_Num_val: "num_val n \<noteq> - (2 ^ 127) \<Longrightarrow> num_val (Abs_Num n) = \<bar>num_val n\<bar>"
  using num_val_range [of n]
  by (auto simp: Abs_Num_def IsNegative_num_val num_val_exact in_range128_def)

lemma Min_Num_val: "num_val (Min_Num a b) = min (num_val a) (num_val b)"
  by (auto simp: Min_Num_def Less_num_val min_def)

lemma Max_Num_val: "num_val (Max_Num a b) = max (num_val a) (num_val b)"
  by (auto simp: Max_Num_def Greater_num_val max_def)

lemma const_val:
  "num_val MaxInt64 = 2 ^ 63 - 1" "num_val MinInt64 = - (2 ^ 63)"
  "num_val MaxInt32 = 2 ^ 31 - 1" "num_val MinInt32 = - (2 ^ 31)"
  "num_val MaxInt16 = 2 ^ 15 - 1" "num_val MinInt16 = - (2 ^ 15)"
  "num_val MaxInt8 = 2 ^ 7 - 1" "num_val MinInt8 = - (2 ^ 7)"
  "num_val one_Num = 1" "num_val ten_Num = 10"
  by (simp_all add: MaxInt64_def MinInt64_def MaxInt32_def MinInt32_def MaxInt16_def MinInt16_def
      MaxInt8_def MinInt8_def one_Num_def ten_Num_def FromInt64_num_val FromUint64_num_val)

lemma MaxInt128_eq: "MaxInt128 = \<lparr>hi = 2 ^ 63 - 1, lo = - 1\<rparr>"
  by code_simp

lemma MinInt128_eq: "MinInt128 = \<lparr>hi = 2 ^ 63, lo = 0\<rparr>"
  by code_simp

lemma MaxInt128_val: "num_val MaxInt128 = 2 ^ 127 - 1"
  by (simp add: MaxInt128_eq num_val_eq unsigned_minus_1_eq_mask mask_eq_exp_minus_1)

lemma MinInt128_val: "num_val MinInt128 = - (2 ^ 127)"
  by (simp add: MinInt128_eq num_val_eq)

definition fits_bytes :: "nat \<Rightarrow> int \<Rightarrow> bool" where
  "fits_bytes w k \<longleftrightarrow> - (2 ^ (8 * w - 1)) \<le> k \<and> k < 2 ^ (8 * w - 1)"

lemma ByteWidth_minimal:
  "ByteWidth v \<in> {1, 2, 4, 8, 16} \<and> fits_bytes (ByteWidth v) (num_val v) \<and>
   (\<forall>w \<in> {1, 2, 4, 8, 16}. fits_bytes w (num_val v) \<longrightarrow> ByteWidth v \<le> w)"
  using num_val_range [of v]
  by (simp add: ByteWidth_def fits_bytes_def IsNegative_num_val Less_num_val Greater_num_val const_val)

lemma uint64_mod [simp]: "uint (x :: 64 word) mod 18446744073709551616 = uint x"
  using uint_lt2p [of x] by simp

lemma FromBigEndian_ToBigEndian: "FromBigEndian (ToBigEndian n @ rest) = Some n"
  by (cases n) (simp add: FromBigEndian_def ToBigEndian_def be_val_be_bytes)

lemma ToBigEndian_FromBigEndian:
  assumes "length b = 16" shows "map_option ToBigEndian (FromBigEndian b) = Some b"
proof -
  have *: "be_bytes 8 (uint (word_of_int (be_val c) :: 64 word)) = c" if "length c = 8" for c
    using be_bytes_be_val [of c] be_val_bounds [of c] that
    by (simp add: uint_word_of_int)
  have "length (take 8 b) = 8" "length (take 8 (drop 8 b)) = 8" "take 8 (drop 8 b) = drop 8 b"
    using assms by simp_all
  then show ?thesis
    using assms by (simp add: FromBigEndian_def ToBigEndian_def * )
qed

lemma be_val_ToBigEndian: "be_val (ToBigEndian n) = uint (w128 n)"
proof -
  have app: "be_val (xs @ ys) = be_val xs * 256 ^ length ys + be_val ys" for xs ys
    by (induction xs) (simp_all add: power_add algebra_simps)
  show ?thesis
    using uint_lt2p [of "hi n"] uint_lt2p [of "lo n"]
    by (simp add: ToBigEndian_def app be_val_be_bytes uint_w128)
qed

lemma AppendBigEndian_eq: "AppendBigEndian n b = b @ ToBigEndian n"
  by (simp add: AppendBigEndian_def ToBigEndian_def)

subsection \<open>Text round trip\<close>

lemma bigInt_method_val: "bigInt_method n = num_val n"
proof -
  have "bigInt_method n = concat_bit 64 (uint (lo n)) (sint (hi n))"
    by (simp add: bigInt_method_def concat_bit_def take_bit_uint64 or.commute)
  then show ?thesis
    by (simp add: concat_bit_eq take_bit_uint64 push_bit_eq_mult num_val_eq)
qed

lemma big_Bits_limbs:
  assumes "0 < m" "m < 2 ^ 128"
  shows "big_Bits m = (if m < 2 ^ 64 then [word_of_nat m] else [word_of_nat m, word_of_nat (m div 2 ^ 64)])"
proof -
  define q where "q = m div 2 ^ 64"
  have q: "q = 0 \<longleftrightarrow> m < 2 ^ 64" "q div 2 ^ 64 = 0"
    using assms(2) by (simp_all add: q_def div_eq_0_iff)
  have "big_Bits m = word_of_nat m # big_Bits q"
    using assms(1) by (simp add: big_Bits.simps [of m] q_def)
  moreover have "big_Bits q = (if m < 2 ^ 64 then [] else [word_of_nat q])"
    by (subst big_Bits.simps) (simp only: q big_Bits.simps [of 0] simp_thms if_True)
  ultimately show ?thesis by (simp add: q_def)
qed

lemma w128_limbs:
  assumes "m < 2 ^ 128"
  shows "w128 \<lparr>hi = word_of_nat (m div 2 ^ 64), lo = word_of_nat m\<rparr> = word_of_nat m"
proof -
  have "m div 2 ^ 64 < 2 ^ 64" using assms by simp
  then have h: "uint (word_of_nat (m div 2 ^ 64) :: 64 word) = int m div 2 ^ 64"
    by (simp add: unsigned_of_nat take_bit_nat_eq_self zdiv_int)
  have l: "uint (word_of_nat m :: 64 word) = int m mod 2 ^ 64"
    by (simp add: unsigned_of_nat take_bit_eq_mod zmod_int)
  have "uint (w128 \<lparr>hi = word_of_nat (m div 2 ^ 64), lo = word_of_nat m\<rparr>) = int m"
    unfolding uint_w128 by (simp only: Num.select_convs h l div_mult_mod_eq)
  also have "\<dots> = uint (word_of_nat m :: 128 word)"
    using assms by (simp add: unsigned_of_nat take_bit_nat_eq_self)
  finally show ?thesis by (rule word_uint_eqI)
qed

lemma bigInt_Some:
  assumes "in_range128 k" shows "\<exists>n. bigInt k = Some n \<and> num_val n = k"
proof -
  let ?m = "nat \<bar>k\<bar>"
  let ?n = "\<lparr>hi = word_of_nat (?m div 2 ^ 64), lo = word_of_nat ?m\<rparr> :: Num"
  have m: "?m < 2 ^ 128" using assms by (auto simp: in_range128_def)
  have "bigInt k = Some (if k < 0 then Neg ?n else ?n)"
  proof (cases "k = 0")
    case True
    then show ?thesis
      using assms by (simp add: bigInt_def bigInt_method_val MaxInt128_val MinInt128_val big_Bits.simps zero_Num_def)
  next
    case False
    then have "0 < ?m" by simp
    from big_Bits_limbs [OF this m] show ?thesis
      using assms False
      by (auto simp: bigInt_def bigInt_method_val MaxInt128_val MinInt128_val in_range128_def zero_Num_def Let_def)
  qed
  moreover have "w128 (if k < 0 then Neg ?n else ?n) = word_of_int k"
    unfolding if_distrib [of w128] Neg_w128 w128_limbs [OF m] by simp
  ultimately show ?thesis
    using assms sint_of_int128 [of k] by (simp add: num_val_def in_range128_def)
qed

lemma bigInt_num_val: "bigInt (num_val n) = Some n"
  using bigInt_Some [of "num_val n"] by (auto simp: num_val_inject)

lemma Parse_String: "Parse (String_Num n) = Some n"
  by (simp add: Parse_def String_Num_def bigInt_method_val bigInt_num_val)

lemma bigInt_None: "\<not> in_range128 k \<Longrightarrow> bigInt k = None"
  by (auto simp: bigInt_def bigInt_method_val MaxInt128_val MinInt128_val in_range128_def)

lemma Parse_iff: "Parse s = Some n \<longleftrightarrow> parse_int s = Some (num_val n)"
proof (cases "parse_int s")
  case (Some k)
  then show ?thesis
    using bigInt_Some [of k] bigInt_None [of k] num_val_inject
    by (cases "in_range128 k") (auto simp: Parse_def)
qed (simp add: Parse_def)

section \<open>Properties\<close>

text \<open>C4. The limb-wise operations are arithmetic on 128-bit two's complement words:
  addition, subtraction, multiplication with the cross terms, negation, bitwise or, and a left
  shift by any amount (also amounts of 64 and more, where Go's shifts give zero).\<close>

theorem int128_refines_word:
  "w128 (Add a b) = w128 a + w128 b \<and> w128 (Sub a b) = w128 a - w128 b \<and>
   w128 (Mul a b) = w128 a * w128 b \<and> w128 (Neg a) = - w128 a \<and>
   w128 (Or_Num a b) = w128 a OR w128 b \<and> w128 (Shl a amt) = push_bit (unat amt) (w128 a)"
  by (simp add: w128_hom)

text \<open>Read as signed integers, sums, differences, products and negations that stay in
  [-2^127, 2^127) are exact.\<close>

theorem int128_exact:
  "(in_range128 (num_val a + num_val b) \<longrightarrow> num_val (Add a b) = num_val a + num_val b) \<and>
   (in_range128 (num_val a - num_val b) \<longrightarrow> num_val (Sub a b) = num_val a - num_val b) \<and>
   (in_range128 (num_val a * num_val b) \<longrightarrow> num_val (Mul a b) = num_val a * num_val b) \<and>
   (in_range128 (- num_val a) \<longrightarrow> num_val (Neg a) = - num_val a \<and> num_val (Abs_Num a) = \<bar>num_val a\<bar>)"
  by (auto simp: num_val_exact Abs_Num_val in_range128_def)

theorem int128_exact_witness:
  "num_val (Mul (New (- 1) 0) (FromInt64 3)) = - (3 * 2 ^ 64)"
proof -
  have "num_val (New (- 1) 0) = - (2 ^ 64)" by (simp add: New_def num_val_eq)
  moreover have "num_val (FromInt64 3) = 3" by (simp add: FromInt64_num_val)
  ultimately show ?thesis
    using int128_exact [of "New (- 1) 0" "FromInt64 3"] by (simp add: in_range128_def)
qed

text \<open>The comparisons and selections are those of the signed values, and a value has one
  representation.\<close>

theorem int128_order:
  "Less a b = (num_val a < num_val b) \<and> Greater a b = (num_val b < num_val a) \<and>
   IsNegative a = (num_val a < 0) \<and> (num_val a = num_val b) = (a = b) \<and>
   num_val (Min_Num a b) = min (num_val a) (num_val b) \<and>
   num_val (Max_Num a b) = max (num_val a) (num_val b)"
  by (simp add: Less_num_val Greater_num_val IsNegative_num_val num_val_inject Min_Num_val Max_Num_val)

text \<open>C33. The 16-byte big-endian form: encoding then decoding gives the number back whatever
  bytes follow, decoding then encoding gives the 16 bytes back, the bytes spell the two's
  complement word, and appending adds exactly these bytes.\<close>

theorem int128_big_endian:
  "FromBigEndian (ToBigEndian n @ rest) = Some n \<and>
   (length b = 16 \<longrightarrow> map_option ToBigEndian (FromBigEndian b) = Some b) \<and>
   be_val (ToBigEndian n) = uint (w128 n) \<and> AppendBigEndian n buf = buf @ ToBigEndian n"
  by (simp add: FromBigEndian_ToBigEndian ToBigEndian_FromBigEndian be_val_ToBigEndian AppendBigEndian_eq)

theorem int128_big_endian_witness:
  "map_option ToBigEndian (FromBigEndian (0x80 # replicate 15 0)) = Some (0x80 # replicate 15 0)"
  using int128_big_endian [of zero_Num "[]" "0x80 # replicate 15 0" "[]"] by simp

text \<open>C32. Parsing a decimal string gives \<open>n\<close> exactly when the string denotes the integer
  value of \<open>n\<close> (so anything outside the 128-bit range is refused), and printing then parsing
  is the identity.\<close>

theorem int128_parse_print:
  "(Parse s = Some n) = (parse_int s = Some (num_val n)) \<and> Parse (String_Num n) = Some n \<and>
   MustParse (MarshalJSON n) = Ok n"
proof -
  have "MarshalJSON n = String_Num n" by (simp add: MarshalJSON_def String_Num_def)
  then have "MustParse (MarshalJSON n) = Ok n" by (simp add: MustParse_def Parse_String)
  then show ?thesis by (simp add: Parse_iff Parse_String [unfolded Parse_iff])
qed

text \<open>The byte width chosen for a value is one of the column widths, holds the value, and no
  smaller column width holds it.\<close>

theorem ByteWidth_least:
  "ByteWidth v \<in> {1, 2, 4, 8, 16} \<and> fits_bytes (ByteWidth v) (num_val v) \<and>
   (\<forall>w \<in> {1, 2, 4, 8, 16}. fits_bytes w (num_val v) \<longrightarrow> ByteWidth v \<le> w)"
  by (rule ByteWidth_minimal)

theorem ByteWidth_least_witness:
  "ByteWidth (FromInt64 (- 129)) = 2"
  using ByteWidth_least [of "FromInt64 (- 129)"] by (auto simp: fits_bytes_def FromInt64_num_val)

end
