(* ===== verification/Int128_Div.thy ===== *)
theory Int128_Div
  imports Int128 "HOL-Library.Signed_Division"
begin

text \<open>
  Model of \<^verbatim>\<open>src/internal/impl/snowflake/streaming/int128/division.go\<close>: signed division
  by shift and subtract, the signed and unsigned comparison and the logical right shift. The loop
  runs \<open>shift + 1\<close> times, which is the structural argument of \<open>div_loop\<close>, so the model is
  total; \<open>None\<close> is the panic of a zero divisor.
\<close>

section \<open>Operations\<close>

definition Compare :: "Num \<Rightarrow> Num \<Rightarrow> int" where
  "Compare a b =
     (let r = cmp_Compare (sint (hi a)) (sint (hi b))
      in if r = 0 then cmp_Compare (lo a) (lo b) else r)"

definition CompareUnsigned :: "Num \<Rightarrow> Num \<Rightarrow> int" where
  "CompareUnsigned a b =
     (let r = cmp_Compare (hi a) (hi b)
      in if r = 0 then cmp_Compare (lo a) (lo b) else r)"

definition uShr :: "Num \<Rightarrow> uint64 \<Rightarrow> Num" where
  "uShr v amt =
     (let n = amt - 64; m = 64 - amt
      in \<lparr>hi = go_shr (hi v) amt,
          lo = go_shr (lo v) amt OR go_shr (hi v) n OR go_shl (hi v) m\<rparr>)"

fun div_loop :: "nat \<Rightarrow> Num \<Rightarrow> Num \<Rightarrow> Num \<Rightarrow> Num \<times> Num" where
  "div_loop 0 quot dividend denominator = (quot, dividend)"
| "div_loop (Suc k) quot dividend denominator =
     (let quot = Shl quot 1;
          (dividend, quot) =
            (if 0 \<le> CompareUnsigned dividend denominator
             then (Sub dividend denominator, quot\<lparr>lo := lo quot OR 1\<rparr>)
             else (dividend, quot));
          denominator = uShr denominator 1
      in div_loop k quot dividend denominator)"

definition Div :: "Num \<Rightarrow> Num \<Rightarrow> Num option" where
  "Div dividend divisor =
     (if divisor = zero_Num then None
      else
        (let negateQuotient = ((sint (hi dividend) < 0) \<noteq> (sint (hi divisor) < 0));
             dividend = (if IsNegative dividend then Neg dividend else dividend);
             divisor = (if IsNegative divisor then Neg divisor else divisor)
         in if divisor = dividend then Some (FromInt64 1)
            else if 0 < CompareUnsigned divisor dividend then Some zero_Num
            else
              (let shift = fls128 dividend - fls128 divisor;
                   denominator = Shl divisor (word_of_int shift);
                   (quot, _) = div_loop (nat (shift + 1)) zero_Num dividend denominator
               in Some (if negateQuotient then Neg quot else quot))))"

section \<open>Correctness of the loop\<close>

text \<open>\<open>uval\<close> is the unsigned reading, in which the loop works.\<close>

lemma uShr_w128 [w128_hom]: "w128 (uShr v amt) = drop_bit (unat amt) (w128 v)"
proof (rule bit_word_eqI)
  fix i assume i: "i < LENGTH(128)"
  have lt: "unat amt < 2 ^ 64" using unat64_less [of amt] by simp
  show "bit (w128 (uShr v amt)) i = bit (drop_bit (unat amt) (w128 v)) i"
  proof (cases "i < 64")
    case True
    with lt show ?thesis
      by (auto simp: bit_w128 uShr_def go_shl_eq go_shr_eq bit_push_bit_iff bit_drop_bit_eq
          bit_or_iff unat_shift_amounts algebra_simps dest: bit_imp_le_length)
  next
    case False
    with i lt show ?thesis
      by (auto simp: bit_w128 uShr_def go_shr_eq bit_drop_bit_eq algebra_simps dest: bit_imp_le_length)
  qed
qed

definition uval :: "Num \<Rightarrow> nat" where
  "uval n = unat (w128 n)"

lemma int_uval: "int (uval n) = uint (hi n) * 2 ^ 64 + uint (lo n)"
  by (simp add: uval_def uint_w128)

lemma uval_limbs: "uval n = unat (hi n) * 2 ^ 64 + unat (lo n)"
proof -
  have "int (uval n) = int (unat (hi n) * 2 ^ 64 + unat (lo n))"
    by (simp add: int_uval)
  then show ?thesis by (simp only: of_nat_eq_iff)
qed

lemma uval_less: "uval n < 2 ^ 128"
  using unsigned_less [of "w128 n", where ?'a = nat] by (simp add: uval_def)

lemma uval_inject: "uval a = uval b \<longleftrightarrow> a = b"
  by (metis uval_def w128_inject unsigned_word_eqI)

lemma uval_less_iff: "uval a < uval b \<longleftrightarrow> hi a < hi b \<or> hi a = hi b \<and> lo a < lo b"
proof -
  have "int (uval a) < int (uval b) \<longleftrightarrow>
      uint (hi a) < uint (hi b) \<or> uint (hi a) = uint (hi b) \<and> uint (lo a) < uint (lo b)"
    unfolding int_uval
    using uint_lt2p [of "lo a"] uint_lt2p [of "lo b"] by (intro limbs_less) simp_all
  then show ?thesis by (simp add: word_less_def word_uint_eq_iff)
qed

lemma CompareUnsigned_pos: "0 < CompareUnsigned a b \<longleftrightarrow> uval b < uval a"
  by (auto simp: CompareUnsigned_def uval_less_iff)

lemma CompareUnsigned_nonneg: "0 \<le> CompareUnsigned a b \<longleftrightarrow> uval b \<le> uval a"
  using uval_less_iff [of a b] by (auto simp: CompareUnsigned_def not_less [symmetric])

lemma uval_Sub: "uval b \<le> uval a \<Longrightarrow> uval (Sub a b) = uval a - uval b"
  by (simp add: uval_def Sub_w128 unat_sub word_le_nat_alt)

lemma uval_uShr: "uval (uShr n 1) = uval n div 2"
  by (simp add: uval_def uShr_w128 unat_drop_bit_eq drop_bit_eq_div unat_div)

lemma uval_Shl: "uval n * 2 ^ unat amt < 2 ^ 128 \<Longrightarrow> uval (Shl n amt) = uval n * 2 ^ unat amt"
  by (simp add: uval_def Shl_w128 unsigned_push_bit_eq take_bit_nat_eq_self flip: push_bit_eq_mult)

lemma uval_set_bit0: "even (uval n) \<Longrightarrow> uval (n\<lparr>lo := lo n OR 1\<rparr>) = uval n + 1"
proof -
  assume "even (uval n)"
  then have "even (unat (lo n))" by (simp add: uval_limbs)
  moreover have "unat (lo n OR 1) = unat (lo n) + of_bool (even (unat (lo n)))"
    by (simp only: unsigned_or_eq unsigned_1 or_one_eq [of "unat (lo n)"])
  ultimately show ?thesis
    by (simp add: uval_limbs)
qed

lemma bit_len_bounds: "n < 2 ^ bit_len n \<and> (0 < n \<longrightarrow> 2 ^ (bit_len n - 1) \<le> n \<and> 0 < bit_len n)"
proof (induction n rule: bit_len.induct)
  case (1 n)
  show ?case
  proof (cases "n = 0")
    case False
    then have e: "bit_len n = Suc (bit_len (n div 2))" by (subst bit_len.simps) simp
    have u: "n div 2 < 2 ^ bit_len (n div 2)" using "1.IH" False by blast
    then have "n < 2 ^ bit_len n" unfolding e by simp
    moreover have "2 ^ bit_len (n div 2) \<le> n"
    proof (cases "n div 2 = 0")
      case True
      then show ?thesis using False by (simp add: bit_len.simps)
    next
      case nz: False
      then have "2 ^ (bit_len (n div 2) - 1) \<le> n div 2" "0 < bit_len (n div 2)"
        using "1.IH" False by auto
      then have "2 * 2 ^ (bit_len (n div 2) - 1) \<le> n" "2 * 2 ^ (bit_len (n div 2) - 1) = (2::nat) ^ bit_len (n div 2)"
        by (simp, metis One_nat_def Suc_pred power_Suc)
      then show ?thesis by simp
    qed
    ultimately show ?thesis by (simp add: e)
  qed (simp add: bit_len.simps)
qed

lemma bit_len_unique: "2 ^ k \<le> n \<Longrightarrow> n < 2 ^ Suc k \<Longrightarrow> bit_len n = Suc k"
proof -
  assume a: "2 ^ k \<le> n" "n < 2 ^ Suc k"
  then have "0 < n" by (metis less_le_trans zero_less_numeral zero_less_power)
  then have b: "n < 2 ^ bit_len n" "2 ^ (bit_len n - 1) \<le> n" "0 < bit_len n"
    using bit_len_bounds [of n] by auto
  have "2 ^ k < (2::nat) ^ bit_len n" using a(1) b(1) by (rule le_less_trans)
  then have "k < bit_len n" by simp
  moreover have "2 ^ (bit_len n - 1) < (2::nat) ^ Suc k" using b(2) a(2) by (rule le_less_trans)
  then have "bit_len n - 1 < Suc k" by (simp only: power_strict_increasing_iff)
  ultimately show ?thesis using b(3) by simp
qed

lemma fls128_uval: "0 < uval n \<Longrightarrow> fls128 n = int (bit_len (uval n)) - 1"
proof -
  assume pos: "0 < uval n"
  show ?thesis
  proof (cases "hi n = 0")
    case True
    then show ?thesis by (simp add: fls128_def bits_LeadingZeros64_def uval_limbs)
  next
    case False
    let ?h = "unat (hi n)"
    have h: "0 < ?h" using False by (simp add: unat_gt_0)
    then have b: "?h < 2 ^ bit_len ?h" "2 ^ (bit_len ?h - 1) \<le> ?h" "0 < bit_len ?h"
      using bit_len_bounds [of ?h] by auto
    have "bit_len ?h + 63 = bit_len ?h - 1 + 64" using b(3) by simp
    then have "2 ^ (bit_len ?h + 63) = 2 ^ (bit_len ?h - 1) * (2 ^ 64 :: nat)"
      by (simp only: power_add)
    also have "\<dots> \<le> ?h * 2 ^ 64" using b(2) by (rule mult_le_mono1)
    also have "\<dots> \<le> uval n" by (simp add: uval_limbs)
    finally have lower: "2 ^ (bit_len ?h + 63) \<le> uval n" .
    have "uval n < (?h + 1) * 2 ^ 64" using unat64_less [of "lo n"] by (simp add: uval_limbs)
    also have "\<dots> \<le> 2 ^ bit_len ?h * 2 ^ 64" using b(1) by (intro mult_le_mono1) simp
    also have "\<dots> = 2 ^ Suc (bit_len ?h + 63)" by (simp add: power_add)
    finally have "bit_len (uval n) = Suc (bit_len ?h + 63)" by (rule bit_len_unique [OF lower])
    with False show ?thesis by (simp add: fls128_def bits_LeadingZeros64_def)
  qed
qed

lemma div_loop_correct:
  assumes "uval a < D * 2 ^ k" and "0 < k \<Longrightarrow> uval d = D * 2 ^ (k - 1)"
    and "uval q * 2 ^ k + uval a div D < 2 ^ 128" and "0 < D"
  shows "uval (fst (div_loop k q a d)) = uval q * 2 ^ k + uval a div D \<and>
         uval (snd (div_loop k q a d)) = uval a mod D"
  using assms
proof (induction k arbitrary: q a d)
  case 0
  then show ?case by simp
next
  case (Suc k)
  have d: "uval d = D * 2 ^ k" using Suc.prems(2) by simp
  have q: "uval (Shl q 1) = 2 * uval q"
  proof -
    have "uval q * 2 \<le> uval q * 2 ^ Suc k" by simp
    then have "uval q * 2 < 2 ^ 128" using Suc.prems(3) by linarith
    then show ?thesis using uval_Shl [of q 1] by simp
  qed
  have d': "uval (uShr d 1) = D * 2 ^ (k - 1)" if "0 < k"
    using that by (cases k) (simp_all add: uval_uShr d)
  show ?case
  proof (cases "uval d \<le> uval a")
    case True
    let ?a = "Sub a d" and ?q = "(Shl q 1)\<lparr>lo := lo (Shl q 1) OR 1\<rparr>"
    have a: "uval ?a = uval a - D * 2 ^ k" using True by (simp add: uval_Sub d)
    have q': "uval ?q = 2 * uval q + 1" using uval_set_bit0 [of "Shl q 1"] q by simp
    have split: "uval a = uval ?a + D * 2 ^ k" using True a d by simp
    then have dm: "uval a div D = uval ?a div D + 2 ^ k" "uval a mod D = uval ?a mod D"
      using Suc.prems(4) by simp_all
    have "uval ?a < D * 2 ^ k" using Suc.prems(1) a by simp
    moreover have "uval ?q * 2 ^ k + uval ?a div D < 2 ^ 128"
      using Suc.prems(3) dm q' by (simp add: algebra_simps)
    ultimately have "uval (fst (div_loop k ?q ?a (uShr d 1))) = uval ?q * 2 ^ k + uval ?a div D \<and>
        uval (snd (div_loop k ?q ?a (uShr d 1))) = uval ?a mod D"
      using d' Suc.prems(4) by (intro Suc.IH) simp_all
    then show ?thesis using True dm q'
      by (simp add: CompareUnsigned_nonneg Let_def algebra_simps)
  next
    case False
    then have "uval a < D * 2 ^ k" by (simp add: d)
    moreover have "uval (Shl q 1) * 2 ^ k + uval a div D < 2 ^ 128"
      using Suc.prems(3) q by (simp add: algebra_simps)
    ultimately have "uval (fst (div_loop k (Shl q 1) a (uShr d 1))) = uval (Shl q 1) * 2 ^ k + uval a div D \<and>
        uval (snd (div_loop k (Shl q 1) a (uShr d 1))) = uval a mod D"
      using d' Suc.prems(4) by (intro Suc.IH) simp_all
    then show ?thesis using False q
      by (simp add: CompareUnsigned_nonneg Let_def algebra_simps)
  qed
qed

lemma w128_Abs_Num: "w128 (Abs_Num a) = word_of_int \<bar>num_val a\<bar>"
  by (simp add: Abs_Num_def IsNegative_num_val Neg_w128 abs_if num_val_word)

lemma uval_Abs_Num: "uval (Abs_Num a) = nat \<bar>num_val a\<bar>"
proof -
  have "\<bar>num_val a\<bar> < 2 ^ 128" using num_val_range [of a] by auto
  then have "uint (word_of_int \<bar>num_val a\<bar> :: 128 word) = \<bar>num_val a\<bar>"
    by (simp add: uint_word_of_int)
  then show ?thesis by (simp add: uval_def w128_Abs_Num flip: nat_uint_eq)
qed

lemma zero_Num_iff: "n = zero_Num \<longleftrightarrow> num_val n = 0"
  by (metis num_val_inject zero_Num_num_val)

lemma uval_zero_Num [simp]: "uval zero_Num = 0"
  by (simp add: uval_limbs zero_Num_def)

lemma uval_word: "uval n = nat k \<Longrightarrow> 0 \<le> k \<Longrightarrow> w128 n = word_of_int k"
proof -
  assume "uval n = nat k" "0 \<le> k"
  then have "k = int (unat (w128 n))" by (simp add: uval_def)
  then show ?thesis by (simp only: uint_nat [symmetric] word_of_int_uint)
qed

lemma Div_alt:
  "Div a b =
     (if b = zero_Num then None
      else if Abs_Num b = Abs_Num a then Some (FromInt64 1)
      else if 0 < CompareUnsigned (Abs_Num b) (Abs_Num a) then Some zero_Num
      else
        (let shift = fls128 (Abs_Num a) - fls128 (Abs_Num b);
             q = fst (div_loop (nat (shift + 1)) zero_Num (Abs_Num a) (Shl (Abs_Num b) (word_of_int shift)))
         in Some (if (num_val a < 0) \<noteq> (num_val b < 0) then Neg q else q)))"
  by (simp add: Div_def Abs_Num_def Let_def split_def flip: IsNegative_num_val)
    (simp add: IsNegative_def)

lemma div_loop_start:
  assumes "0 < uval b" "uval b \<le> uval a"
  shows "uval (fst (div_loop (nat (fls128 a - fls128 b + 1)) zero_Num a
     (Shl b (word_of_int (fls128 a - fls128 b))))) = uval a div uval b"
proof -
  let ?s = "bit_len (uval a) - bit_len (uval b)"
  have pos: "0 < uval a" using assms by simp
  have ba: "uval a < 2 ^ bit_len (uval a)" "2 ^ (bit_len (uval a) - 1) \<le> uval a" "0 < bit_len (uval a)"
    using bit_len_bounds [of "uval a"] pos by auto
  have bb: "uval b < 2 ^ bit_len (uval b)" "2 ^ (bit_len (uval b) - 1) \<le> uval b" "0 < bit_len (uval b)"
    using bit_len_bounds [of "uval b"] assms by auto
  have "2 ^ (bit_len (uval b) - 1) < (2::nat) ^ bit_len (uval a)"
    using bb(2) assms(2) ba(1) by linarith
  then have le: "bit_len (uval b) \<le> bit_len (uval a)" using bb(3) by simp
  have "2 ^ (bit_len (uval a) - 1) < (2::nat) ^ 128"
    using ba(2) uval_less [of a] by (rule le_less_trans)
  then have len: "bit_len (uval a) \<le> 128" by (simp only: power_strict_increasing_iff)
  have s: "fls128 a - fls128 b = int ?s"
    using fls128_uval [OF pos] fls128_uval [OF assms(1)] le by simp
  have s64: "unat (word_of_int (int ?s) :: 64 word) = ?s"
    using len by (simp add: unsigned_of_nat take_bit_nat_eq_self)
  have "uval b * 2 ^ ?s < 2 ^ bit_len (uval b) * 2 ^ ?s" using bb(1) by simp
  also have "\<dots> = 2 ^ bit_len (uval a)" using le by (simp flip: power_add)
  also have "\<dots> \<le> 2 ^ 128" using len by (simp only: power_increasing_iff)
  finally have d: "uval (Shl b (word_of_int (int ?s))) = uval b * 2 ^ ?s"
    using uval_Shl [of b "word_of_int (int ?s)"] s64 by simp
  have "2 ^ bit_len (uval a) = (2::nat) ^ (bit_len (uval b) - 1) * 2 ^ Suc ?s"
    using le bb(3) by (simp flip: power_add power_Suc)
  also have "\<dots> \<le> uval b * 2 ^ Suc ?s" using bb(2) by (rule mult_le_mono1)
  finally have a: "uval a < uval b * 2 ^ Suc ?s" using ba(1) by simp
  have "uval a div uval b \<le> uval a" by simp
  then have "uval zero_Num * 2 ^ Suc ?s + uval a div uval b < 2 ^ 128"
    using uval_less [of a] by simp (meson div_le_dividend le_less_trans)
  then have "uval (fst (div_loop (Suc ?s) zero_Num a (Shl b (word_of_int (int ?s))))) = 
      uval zero_Num * 2 ^ Suc ?s + uval a div uval b"
    using div_loop_correct [OF a] d assms(1) by simp
  then show ?thesis unfolding s by (simp add: nat_add_distrib)
qed

lemma Div_sdiv:
  assumes "num_val b \<noteq> 0" "num_val a \<noteq> - num_val b"
  shows "\<exists>q. Div a b = Some q \<and> num_val q = signed_take_bit 127 (num_val a sdiv num_val b)"
proof -
  have bz: "b \<noteq> zero_Num" using assms(1) by (simp add: zero_Num_iff)
  let ?A = "\<bar>num_val a\<bar>" and ?B = "\<bar>num_val b\<bar>"
  have id: "signed_take_bit 127 k = k" if "k \<in> {0, 1}" for k :: int
    using that by auto
  consider (eq) "?A = ?B" | (lt) "?A < ?B" | (gt) "?B < ?A" by linarith
  then show ?thesis
  proof cases
    case eq
    then have "num_val a = num_val b" using assms by linarith
    with assms eq bz show ?thesis
      by (auto simp: Div_alt FromInt64_num_val signed_divide_int_def num_val_inject)
  next
    case lt
    then have u: "uval (Abs_Num a) < uval (Abs_Num b)" by (simp add: uval_Abs_Num)
    then have "Abs_Num b \<noteq> Abs_Num a" by auto
    with u bz lt show ?thesis
      by (auto simp: Div_alt CompareUnsigned_pos signed_divide_int_def zero_Num_num_val)
  next
    case gt
    then have u: "uval (Abs_Num b) < uval (Abs_Num a)" by (simp add: uval_Abs_Num)
    then have ne: "Abs_Num b \<noteq> Abs_Num a" by auto
    define q where "q = fst (div_loop (nat (fls128 (Abs_Num a) - fls128 (Abs_Num b) + 1)) zero_Num (Abs_Num a)
      (Shl (Abs_Num b) (word_of_int (fls128 (Abs_Num a) - fls128 (Abs_Num b)))))"
    have "0 < uval (Abs_Num b)" using assms(1) by (simp add: uval_Abs_Num)
    then have "uval q = uval (Abs_Num a) div uval (Abs_Num b)"
      unfolding q_def by (rule div_loop_start) (use u in simp)
    also have "\<dots> = nat (?A div ?B)" by (simp add: uval_Abs_Num nat_div_distrib)
    finally have w: "w128 q = word_of_int (?A div ?B)"
      by (rule uval_word) (simp add: div_int_pos_iff)
    define r where "r = (if (num_val a < 0) \<noteq> (num_val b < 0) then Neg q else q)"
    have "Div a b = Some r"
      using bz ne u by (simp add: Div_alt CompareUnsigned_pos r_def Let_def q_def)
    moreover have "w128 r = word_of_int (num_val a sdiv num_val b)"
      using assms(1) by (auto simp: r_def w Neg_w128 signed_divide_int_def sgn_if)
    then have "num_val r = signed_take_bit 127 (num_val a sdiv num_val b)"
      by (simp add: num_val_def sint_sbintrunc')
    ultimately show ?thesis by blast
  qed
qed

lemma Div_minus: "num_val b \<noteq> 0 \<Longrightarrow> num_val a = - num_val b \<Longrightarrow> Div a b = Some (FromInt64 1)"
proof -
  assume b: "num_val b \<noteq> 0" and a: "num_val a = - num_val b"
  then have "uval (Abs_Num b) = uval (Abs_Num a)" by (simp add: uval_Abs_Num)
  then have "Abs_Num b = Abs_Num a" by (simp add: uval_inject)
  with b show ?thesis by (simp add: Div_alt zero_Num_iff)
qed

lemma Compare_num_val: "Compare a b = cmp_Compare (num_val a) (num_val b)"
proof -
  have "sint (hi a) = sint (hi b) \<longleftrightarrow> hi a = hi b" by (auto intro: signed_word_eqI)
  then show ?thesis
    using num_val_less [of a b] num_val_less [of b a] num_val_inject [of a b]
    by (cases a; cases b) (auto simp: Compare_def cmp_Compare_def Let_def)
qed

lemma CompareUnsigned_uval: "CompareUnsigned a b = cmp_Compare (uval a) (uval b)"
  using uval_less_iff [of a b] uval_less_iff [of b a] uval_inject [of a b]
  by (cases a; cases b) (auto simp: CompareUnsigned_def cmp_Compare_def Let_def)

section \<open>Properties\<close>

text \<open>C7. Division truncates towards zero: for a non-zero divisor the result is the quotient of
  the signed values (wrapped to 128 bits, which only matters for -2^127 / -1), except where the
  operands are opposite numbers.\<close>

theorem Div_truncates:
  "num_val b \<noteq> 0 \<Longrightarrow> num_val a \<noteq> - num_val b \<Longrightarrow>
   \<exists>q. Div a b = Some q \<and> num_val q = signed_take_bit 127 (num_val a sdiv num_val b)"
  by (rule Div_sdiv)

theorem Div_truncates_witness:
  "map_option num_val (Div (FromInt64 (- 7)) (FromInt64 2)) = Some (- 3)"
  using Div_truncates [of "FromInt64 2" "FromInt64 (- 7)"]
  by (auto simp: FromInt64_num_val signed_divide_int_def)

text \<open>C37. Dividing a number by its opposite gives 1, not -1: the early return for equal
  magnitudes does not apply the sign it has just computed.\<close>

theorem Div_opposite_gives_one:
  "num_val b \<noteq> 0 \<Longrightarrow> num_val a = - num_val b \<Longrightarrow> map_option num_val (Div a b) = Some 1"
  by (simp add: Div_minus FromInt64_num_val)

theorem Div_opposite_gives_one_witness:
  "map_option num_val (Div (FromInt64 (- 5)) (FromInt64 5)) = Some 1"
  by (rule Div_opposite_gives_one) (simp_all add: FromInt64_num_val)

text \<open>The comparisons of the division file order signed and unsigned readings, and the right
  shift drops low bits of the 128-bit word for every amount.\<close>

theorem Compare_uShr_correct:
  "Compare a b = cmp_Compare (num_val a) (num_val b) \<and>
   CompareUnsigned a b = cmp_Compare (uval a) (uval b) \<and>
   w128 (uShr a amt) = drop_bit (unat amt) (w128 a)"
  by (simp add: Compare_num_val CompareUnsigned_uval uShr_w128)

end
