(* ===== verification/Int128_Decimal.thy ===== *)
theory Int128_Decimal
  imports Complex_Main Int128_Div
begin

text \<open>
  Model of the decimal part of
  \<^verbatim>\<open>src/internal/impl/snowflake/streaming/int128/decimal.go\<close> and of the table
  \<^verbatim>\<open>Pow10Table\<close> of \<^verbatim>\<open>int128.go\<close>: the precision test, rescaling, the byte-level
  fast path of \<^verbatim>\<open>FromString\<close> and its slow path over \<^verbatim>\<open>big.Float\<close>. Precision
  and scale are Go \<^verbatim>\<open>int32\<close> values: integers, with \<open>to_int32\<close> written where the
  code subtracts. An index outside the 39-entry table is a panic. The conversions from and to
  binary floating point are not modelled.
\<close>

section \<open>Operations\<close>

definition to_int32 :: "int \<Rightarrow> int" where
  "to_int32 k = signed_take_bit 31 k"

definition Pow10Table :: "Num list" where
  "Pow10Table =
    [FromUint64 1,
     FromUint64 10,
     FromUint64 100,
     FromUint64 1000,
     FromUint64 10000,
     FromUint64 100000,
     FromUint64 1000000,
     FromUint64 10000000,
     FromUint64 100000000,
     FromUint64 1000000000,
     FromUint64 10000000000,
     FromUint64 100000000000,
     FromUint64 1000000000000,
     FromUint64 10000000000000,
     FromUint64 100000000000000,
     FromUint64 1000000000000000,
     FromUint64 10000000000000000,
     FromUint64 100000000000000000,
     FromUint64 1000000000000000000,
     FromUint64 10000000000000000000,
     New 5 7766279631452241920,
     New 54 3875820019684212736,
     New 542 1864712049423024128,
     New 5421 200376420520689664,
     New 54210 2003764205206896640,
     New 542101 1590897978359414784,
     New 5421010 15908979783594147840,
     New 54210108 11515845246265065472,
     New 542101086 4477988020393345024,
     New 5421010862 7886392056514347008,
     New 54210108624 5076944270305263616,
     New 542101086242 13875954555633532928,
     New 5421010862427 9632337040368467968,
     New 54210108624275 4089650035136921600,
     New 542101086242752 4003012203950112768,
     New 5421010862427522 3136633892082024448,
     New 54210108624275221 12919594847110692864,
     New 542101086242752217 68739955140067328,
     New 5421010862427522170 687399551400673280]"

definition FitsInPrecision :: "Num \<Rightarrow> int \<Rightarrow> bool option" where
  "FitsInPrecision i prec =
     (if prec = 0 then Some (i = zero_Num)
      else if i = MinInt128 then Some False
      else if prec < 0 \<or> 39 \<le> prec then None
      else Some (Less (Abs_Num i) (Pow10Table ! nat prec)))"

datatype dec_error = OutOfRange Num int int | FallbackNeeded

definition Rescale :: "Num \<Rightarrow> int \<Rightarrow> int \<Rightarrow> (dec_error, Num) outcome" where
  "Rescale n precision scale =
     obind (of_opt (FitsInPrecision n (to_int32 (precision - scale)))) (\<lambda>fits.
       if \<not> fits then Err (OutOfRange n precision scale)
       else if scale = 0 then Ok n
       else if scale < 0 \<or> 39 \<le> scale then Panic
       else Ok (Mul n (Pow10Table ! nat scale)))"

definition sub0 :: "char \<Rightarrow> byte" where
  "sub0 c = of_nat (of_char c) - 48"

datatype int_scan = ScanEnd Num | ScanDot Num string | ScanBad

fun scan_int :: "string \<Rightarrow> Num \<Rightarrow> int_scan" where
  "scan_int [] n = ScanEnd n"
| "scan_int (c # cs) n =
     (let ch = sub0 c
      in if 9 < ch then (if ch = 254 then ScanDot n cs else ScanBad)
         else scan_int cs (Add (Mul n ten_Num) (FromUint64 (ucast ch))))"

fun scan_fraction :: "string \<Rightarrow> Num \<Rightarrow> int \<Rightarrow> (Num \<times> int) option" where
  "scan_fraction [] n scale = Some (n, scale)"
| "scan_fraction (c # cs) n scale =
     (let ch = sub0 c
      in if 9 < ch then None
         else if scale = 0 then
           (let n = (if 5 \<le> ch then Add n one_Num else n)
            in if list_ex (\<lambda>c. 9 < sub0 c) cs then None else Some (n, scale))
         else scan_fraction cs (Add (Mul n ten_Num) (FromUint64 (ucast ch))) (to_int32 (scale - 1)))"

text \<open>The two byte loops and the common \<^verbatim>\<open>finish\<close> label; \<open>negative\<close> is the sign byte.\<close>

definition fast_scan :: "bool \<Rightarrow> string \<Rightarrow> int \<Rightarrow> int \<Rightarrow> (dec_error, Num) outcome" where
  "fast_scan negative s prec scale =
     (let finish = (\<lambda>n scale. Rescale (if negative then Neg n else n) prec scale)
      in case scan_int s zero_Num of
           ScanEnd n \<Rightarrow> finish n scale
         | ScanBad \<Rightarrow> Err FallbackNeeded
         | ScanDot n s \<Rightarrow>
             (case scan_fraction s n scale of
                None \<Rightarrow> Err FallbackNeeded
              | Some (n, scale) \<Rightarrow> finish n scale))"

definition fromStringFast :: "string \<Rightarrow> int \<Rightarrow> int \<Rightarrow> (dec_error, Num) outcome" where
  "fromStringFast s prec scale =
     (let sLen = to_int32 (int (length s))
      in if sLen = 0 \<or> 38 < sLen then Err FallbackNeeded
         else if hd s = CHR ''-'' \<or> hd s = CHR ''+'' then
           (if tl s = [] then Err FallbackNeeded else fast_scan (hd s = CHR ''-'') (tl s) prec scale)
         else fast_scan False s prec scale)"

subsection \<open>The slow path\<close>

text \<open>
  A finite \<^verbatim>\<open>big.Float\<close> is the rational it denotes. \<open>parseFloat\<close> stands for
  \<^verbatim>\<open>big.ParseFloat(v, 10, 128, ToNearestAway)\<close> and \<open>mul128\<close> for the rounded product
  at 128 bits. The integer part of a 128-bit float is again such a float, so the subtraction that
  leaves the fraction is exact. \<^verbatim>\<open>Float.Int\<close> of an infinity is a nil pointer, which the
  next call dereferences.
\<close>

datatype big_float = Finite rat | Infinite bool

datatype str_error = ParseError | ValueOutOfRange string | NotInPrecision Num int

definition trunc_rat :: "rat \<Rightarrow> int" where
  "trunc_rat x = (if x < 0 then \<lceil>x\<rceil> else \<lfloor>x\<rfloor>)"

definition round_slow :: "rat \<Rightarrow> int" where
  "round_slow x =
     (let val = trunc_rat x; out = x - of_int val
      in if out < 0 then (if out \<le> 1 / 2 then val - 1 else val)
         else (if 1 / 2 \<le> out then val + 1 else val))"

definition fromStringSlow ::
  "(string \<Rightarrow> big_float option) \<Rightarrow> (rat \<Rightarrow> rat \<Rightarrow> rat) \<Rightarrow> string \<Rightarrow> int \<Rightarrow> int \<Rightarrow> (str_error, Num) outcome"
where
  "fromStringSlow parseFloat mul128 v prec scale =
     (case parseFloat v of
        None \<Rightarrow> Err ParseError
      | Some out \<Rightarrow>
          obind
            (if scale < 0 then
               (case out of Infinite _ \<Rightarrow> Panic
                | Finite x \<Rightarrow>
                   (case bigInt (trunc_rat x) of None \<Rightarrow> Err (ValueOutOfRange v)
                    | Some n \<Rightarrow>
                        if 39 \<le> - scale then Panic
                        else of_opt (Div n (Pow10Table ! nat (- scale)))))
             else if 39 \<le> scale then Panic
             else
               (case out of Infinite _ \<Rightarrow> Panic
                | Finite x \<Rightarrow>
                   (case bigInt (round_slow (mul128 x (of_int (bigInt_method (Pow10Table ! nat scale))))) of
                      None \<Rightarrow> Err (ValueOutOfRange v)
                    | Some n \<Rightarrow> Ok n)))
            (\<lambda>n. obind (of_opt (FitsInPrecision n prec)) (\<lambda>fits.
               if \<not> fits then Err (NotInPrecision n prec) else Ok n)))"

definition FromString ::
  "(string \<Rightarrow> big_float option) \<Rightarrow> (rat \<Rightarrow> rat \<Rightarrow> rat) \<Rightarrow> string \<Rightarrow> int \<Rightarrow> int \<Rightarrow> (str_error, Num) outcome"
where
  "FromString parseFloat mul128 v prec scale =
     (case fromStringFast v prec scale of
        Ok n \<Rightarrow> Ok n
      | Panic \<Rightarrow> Panic
      | Err _ \<Rightarrow> fromStringSlow parseFloat mul128 v prec scale)"

section \<open>The table and the precision test\<close>

lemma to_int32_id [simp]: "- (2 ^ 31) \<le> k \<Longrightarrow> k < 2 ^ 31 \<Longrightarrow> to_int32 k = k"
  by (simp add: to_int32_def signed_take_bit_int_eq_self)

lemma length_Pow10Table [simp]: "length Pow10Table = 39"
  by (simp add: Pow10Table_def)

lemma New_num_val: "num_val (New h l) = sint h * 2 ^ 64 + uint l"
  by (simp add: New_def num_val_eq)

lemma Pow10Table_map: "map num_val Pow10Table = map (\<lambda>i. 10 ^ i) [0..<39]"
  by (simp add: Pow10Table_def FromUint64_num_val New_num_val upt_rec)

lemma Pow10Table_val: "i < 39 \<Longrightarrow> num_val (Pow10Table ! i) = 10 ^ i"
proof -
  assume i: "i < 39"
  then have "num_val (Pow10Table ! i) = map num_val Pow10Table ! i" by simp
  then show ?thesis using i by (simp add: Pow10Table_map)
qed

lemma FitsInPrecision_val:
  assumes "0 \<le> prec" "prec \<le> 38"
  shows "FitsInPrecision n prec = Some (\<bar>num_val n\<bar> < 10 ^ nat prec)"
proof -
  have pw: "(10::int) ^ nat prec \<le> 10 ^ 38"
    using assms by (intro power_increasing) auto
  show ?thesis
  proof (cases "num_val n = - (2 ^ 127)")
    case True
    then have "n = MinInt128" by (metis MinInt128_val num_val_inject)
    then show ?thesis
      using pw True by (simp add: FitsInPrecision_def zero_Num_iff)
  next
    case False
    then have "n \<noteq> MinInt128" using MinInt128_val by auto
    then show ?thesis
      using assms False
      by (auto simp: FitsInPrecision_def zero_Num_iff Less_num_val Abs_Num_val Pow10Table_val nat_less_iff)
  qed
qed

lemma pow10_range: "\<bar>k\<bar> < 10 ^ 38 \<Longrightarrow> in_range128 k"
  by (auto simp: in_range128_def)

lemma pow10_split: "0 \<le> s \<Longrightarrow> s \<le> p \<Longrightarrow> (10::int) ^ nat (p - s) * 10 ^ nat s = 10 ^ nat p"
  by (simp flip: power_add nat_add_distrib)

lemma scaled_bound:
  assumes "0 \<le> s" "s \<le> p"
  shows "\<bar>k\<bar> < 10 ^ nat (p - s) \<longleftrightarrow> \<bar>k * 10 ^ nat s\<bar> < (10::int) ^ nat p"
  by (simp add: abs_mult flip: pow10_split [OF assms])

lemma Rescale_val:
  assumes "0 \<le> s" "s \<le> p" "p \<le> 38"
  shows "Rescale n p s =
    (if \<bar>num_val n * 10 ^ nat s\<bar> < 10 ^ nat p then Ok (Mul n (Pow10Table ! nat s)) else Err (OutOfRange n p s))
    \<and> (\<bar>num_val n * 10 ^ nat s\<bar> < 10 ^ nat p \<longrightarrow> num_val (Mul n (Pow10Table ! nat s)) = num_val n * 10 ^ nat s)"
proof -
  have e: "num_val (Mul n (Pow10Table ! nat s)) = num_val n * 10 ^ nat s" if "\<bar>num_val n * 10 ^ nat s\<bar> < 10 ^ nat p"
  proof -
    have "(10::int) ^ nat p \<le> 10 ^ 38" using assms by (intro power_increasing) auto
    with that have "in_range128 (num_val n * 10 ^ nat s)" by (intro pow10_range) linarith
    then show ?thesis using num_val_exact(3) [of n "Pow10Table ! nat s"] assms by (simp add: Pow10Table_val nat_less_iff)
  qed
  have z: "Mul n (Pow10Table ! 0) = n" if "s = 0" "\<bar>num_val n * 10 ^ nat s\<bar> < 10 ^ nat p"
    using e that by (simp flip: num_val_inject)
  show ?thesis
    using assms e z scaled_bound [OF assms(1,2)]
    by (auto simp: Rescale_def FitsInPrecision_val)
qed

section \<open>The byte loop of the fast path\<close>

lemma unat_sub0: "unat (sub0 c) = (of_char c + 208) mod 256"
proof -
  have "sub0 c = word_of_nat (of_char c + 208)" by (simp add: sub0_def)
  then show ?thesis by (simp only: unsigned_of_nat) (simp add: take_bit_nat_def)
qed

lemma char_code: "(of_char c :: nat) < 256"
  using of_char_of [of "of_char c"] by simp

lemma mod_208: "k < 256 \<Longrightarrow> (k + 208) mod 256 = (if k < 48 then k + 208 else k - (48::nat))"
  using le_mod_geq [of 256 "k + 208"] by simp

lemma sub0_digit: "9 < sub0 c \<longleftrightarrow> \<not> is_digit c" "is_digit c \<Longrightarrow> unat (sub0 c) = digit_val c"
proof -
  have m: "((of_char c :: nat) + 208) mod 256 = (if of_char c < (48::nat) then of_char c + 208 else of_char c - 48)"
    using char_code by (rule mod_208)
  show "9 < sub0 c \<longleftrightarrow> \<not> is_digit c"
    using char_code [of c] by (auto simp: word_less_nat_alt unat_sub0 m is_digit_def)
  show "is_digit c \<Longrightarrow> unat (sub0 c) = digit_val c"
    by (simp add: unat_sub0 m is_digit_def digit_val_def)
qed

lemma sub0_dot: "sub0 c = 254 \<longleftrightarrow> c = CHR ''.''"
proof
  assume "sub0 c = 254"
  then have "((of_char c :: nat) + 208) mod 256 = 254" by (simp flip: unat_sub0)
  then have "(of_char c :: nat) = 46"
    using char_code [of c] unfolding mod_208 [OF char_code] by (simp only: split: if_splits)
  then have "(of_char c :: nat) = of_char CHR ''.''" by simp
  then show "c = CHR ''.''" by (simp only: of_char_eq_iff)
qed (simp add: sub0_def)

lemma digit_val_le: "is_digit c \<Longrightarrow> digit_val c \<le> 9"
  by (auto simp: is_digit_def digit_val_def)

lemma dec_acc_eq: "dec_acc a xs = a * 10 ^ length xs + dec_acc 0 xs"
proof (induction xs arbitrary: a)
  case (Cons c xs)
  show ?case
    using Cons [of "10 * a + digit_val c"] Cons [of "digit_val c"] by (simp add: algebra_simps)
qed simp

lemma dec_acc_ge: "a \<le> dec_acc a xs"
  by (subst dec_acc_eq) (simp add: trans_le_add1)

lemma dec_acc_less: "list_all is_digit xs \<Longrightarrow> dec_acc 0 xs < 10 ^ length xs"
proof (induction xs)
  case (Cons c xs)
  then have "digit_val c \<le> 9" by (simp add: digit_val_le)
  then have "digit_val c * 10 ^ length xs \<le> 9 * 10 ^ length xs" by (rule mult_le_mono1)
  moreover have "dec_acc 0 xs < 10 ^ length xs" using Cons by simp
  ultimately have "digit_val c * 10 ^ length xs + dec_acc 0 xs < 10 * 10 ^ length xs" by linarith
  then show ?case by (simp add: dec_acc_eq [of "digit_val c" xs])
qed simp

lemma num_step:
  assumes "is_digit c" "num_val n = int a" "10 * a + digit_val c < 10 ^ 38"
  shows "num_val (Add (Mul n ten_Num) (FromUint64 (ucast (sub0 c)))) = int (10 * a + digit_val c)"
proof -
  have u: "uint (ucast (sub0 c) :: 64 word) = int (digit_val c)"
  proof -
    have "uint (ucast (sub0 c) :: 64 word) = uint (sub0 c)"
      using uint_lt2p [of "sub0 c"] by (simp add: unsigned_ucast_eq take_bit_int_eq_self)
    also have "\<dots> = int (digit_val c)" using sub0_digit(2) [OF assms(1)] by (simp only: uint_nat)
    finally show ?thesis .
  qed
  have "in_range128 (int a * 10)" "in_range128 (int a * 10 + int (digit_val c))"
    using assms(3) by (simp_all add: in_range128_def)
  then show ?thesis
    using assms(2) u by (simp add: num_val_exact const_val FromUint64_num_val algebra_simps)
qed

lemma scan_int_digits:
  assumes "list_all is_digit xs" "num_val n = int a" "dec_acc a xs < 10 ^ 38"
  shows "\<exists>m. num_val m = int (dec_acc a xs) \<and>
    (\<forall>rest. scan_int (xs @ rest) n = scan_int rest m)"
  using assms
proof (induction xs arbitrary: n a)
  case (Cons c xs)
  have "10 * a + digit_val c \<le> dec_acc (10 * a + digit_val c) xs"
    by (rule dec_acc_ge)
  then have "num_val (Add (Mul n ten_Num) (FromUint64 (ucast (sub0 c)))) = int (10 * a + digit_val c)"
    using Cons.prems by (intro num_step) simp_all
  from Cons.IH [OF _ this] Cons.prems sub0_digit(1) [of c] show ?case
    by (auto simp: Let_def)
qed auto

lemma scan_fraction_digits:
  assumes "list_all is_digit xs" "num_val n = int a" "dec_acc a xs < 10 ^ 38" "int (length xs) \<le> s" "s < 2 ^ 31"
  shows "\<exists>m. num_val m = int (dec_acc a xs) \<and>
    (\<forall>rest. scan_fraction (xs @ rest) n s = scan_fraction rest m (s - int (length xs)))"
  using assms
proof (induction xs arbitrary: n a s)
  case (Cons c xs)
  have "10 * a + digit_val c \<le> dec_acc (10 * a + digit_val c) xs"
    by (rule dec_acc_ge)
  then have "num_val (Add (Mul n ten_Num) (FromUint64 (ucast (sub0 c)))) = int (10 * a + digit_val c)"
    using Cons.prems by (intro num_step) simp_all
  from Cons.IH [OF _ this, of "s - 1"] Cons.prems sub0_digit(1) [of c] show ?case
    by (auto simp: Let_def algebra_simps)
qed auto

definition decimal_string :: "string \<Rightarrow> string \<Rightarrow> string option \<Rightarrow> string" where
  "decimal_string sign ip fp = sign @ ip @ (case fp of None \<Rightarrow> [] | Some f \<Rightarrow> CHR ''.'' # f)"

definition rounded :: "nat \<Rightarrow> nat \<Rightarrow> nat \<Rightarrow> nat" where
  "rounded d f s = (2 * d * 10 ^ s + 10 ^ f) div (2 * 10 ^ f)"

lemma rounded_exact: "f \<le> s \<Longrightarrow> rounded d f s = d * 10 ^ (s - f)"
proof -
  assume "f \<le> s"
  then have "(10::nat) ^ s = 10 ^ (s - f) * 10 ^ f" by (simp flip: power_add)
  then have "2 * d * 10 ^ s + 10 ^ f = 10 ^ f + d * 10 ^ (s - f) * (2 * 10 ^ f)"
    by (simp only: mult.assoc mult.left_commute add.commute)
  then have "rounded d f s = (10 ^ f + d * 10 ^ (s - f) * (2 * 10 ^ f)) div (2 * 10 ^ f)"
    unfolding rounded_def by (simp only:)
  also have "\<dots> = d * 10 ^ (s - f) + 10 ^ f div (2 * 10 ^ f)" by (rule div_mult_self1) simp
  finally show ?thesis by simp
qed

lemma round_div:
  assumes "d \<le> 9" "r < K"
  shows "(2 * ((10 * a + d) * K + r) + 10 * K) div (2 * (10 * K)) = a + (if 5 \<le> d then 1 else (0::nat))"
proof -
  define p q where "p = d * K" and "q = a * K"
  have e: "(10 * a + d) * K = 10 * q + p" "2 * (10 * K) * a = 20 * q"
    "2 * (10 * K) * Suc a = 20 * q + 20 * K" "2 * (10 * K) * Suc (Suc a) = 20 * q + 40 * K"
    by (simp_all add: p_def q_def algebra_simps)
  have p9: "p \<le> 9 * K" unfolding p_def using assms(1) by (rule mult_le_mono1)
  show ?thesis
  proof (cases "5 \<le> d")
    case True
    then have "5 * K \<le> p" unfolding p_def by (rule mult_le_mono1)
    then have "(2 * ((10 * a + d) * K + r) + 10 * K) div (2 * (10 * K)) = Suc a"
      using p9 assms(2) by (intro div_nat_eqI) (simp_all only: e, simp_all)
    then show ?thesis using True by simp
  next
    case False
    then have "d \<le> 4" by simp
    then have "p \<le> 4 * K" unfolding p_def by (rule mult_le_mono1)
    then have "(2 * ((10 * a + d) * K + r) + 10 * K) div (2 * (10 * K)) = a"
      using assms(2) by (intro div_nat_eqI) (simp_all only: e, simp_all)
    then show ?thesis using False by simp
  qed
qed

lemma rounded_half:
  assumes "is_digit c" "list_all is_digit ys"
  shows "rounded (dec_acc a (c # ys)) (Suc (length ys)) 0 = a + (if 5 \<le> digit_val c then 1 else 0)"
  using round_div [OF digit_val_le [OF assms(1)] dec_acc_less [OF assms(2)], of a]
  by (simp add: rounded_def dec_acc_eq [of "10 * a + digit_val c"])

lemma rounded_shift: "rounded d (s + k) s = rounded d k 0"
proof -
  have "2 * d * 10 ^ s + 10 ^ (s + k) = 10 ^ s * (2 * d + 10 ^ k :: nat)"
    "2 * 10 ^ (s + k) = 10 ^ s * (2 * 10 ^ k :: nat)"
    by (simp_all add: power_add algebra_simps)
  then show ?thesis by (simp only: rounded_def) simp
qed

lemma scan_fraction_round:
  assumes "list_all is_digit (c # ys)" "num_val n = int a" "a < 10 ^ 38"
  shows "\<exists>m. scan_fraction (c # ys) n 0 = Some (m, 0) \<and>
    num_val m = int (a + (if 5 \<le> digit_val c then 1 else 0))"
proof -
  have "5 \<le> sub0 c \<longleftrightarrow> 5 \<le> digit_val c"
    using assms(1) sub0_digit(2) [of c] by (simp add: word_le_nat_alt)
  moreover have "\<not> list_ex (\<lambda>c. 9 < sub0 c) ys"
    using assms(1) by (simp add: sub0_digit list_all_iff list_ex_iff)
  moreover have "num_val (Add n one_Num) = int a + 1"
    using assms(2,3) by (simp add: num_val_exact const_val in_range128_def)
  ultimately show ?thesis
    using assms(1,2) sub0_digit(1) [of c] by (auto simp: Let_def)
qed

lemma scan_fraction_val:
  assumes "list_all is_digit f" "num_val n = int a" "dec_acc a f < 10 ^ 38" "0 \<le> s" "s < 2 ^ 31"
  shows "\<exists>m t b. scan_fraction f n s = Some (m, t) \<and> num_val m = int b \<and> b \<le> 10 ^ 38 \<and>
    0 \<le> t \<and> t \<le> s \<and> b * 10 ^ nat t = rounded (dec_acc a f) (length f) (nat s)"
proof (cases "int (length f) \<le> s")
  case True
  from scan_fraction_digits [OF assms(1-3) True assms(5)] obtain m
    where m: "num_val m = int (dec_acc a f)" "scan_fraction f n s = Some (m, s - int (length f))"
    by (metis append_Nil2 scan_fraction.simps(1))
  moreover have "length f \<le> nat s" "nat (s - int (length f)) = nat s - length f"
    using True by auto
  ultimately show ?thesis
    using True assms(3) by (intro exI [of _ m] exI [of _ "s - int (length f)"] exI [of _ "dec_acc a f"]) (simp add: rounded_exact)
next
  case False
  define xs where "xs = take (nat s) f"
  have "nat s < length f" using False assms(4) by linarith
  then obtain c ys where f: "f = xs @ c # ys" and l: "length xs = nat s"
    using id_take_nth_drop [of "nat s" f] by (auto simp: xs_def)
  have d: "list_all is_digit xs" "list_all is_digit (c # ys)" using assms(1) f by auto
  have "dec_acc a f = dec_acc (dec_acc a xs) (c # ys)" by (simp add: f dec_acc_append)
  moreover have "dec_acc a xs \<le> dec_acc (dec_acc a xs) (c # ys)" by (rule dec_acc_ge)
  ultimately have lt: "dec_acc a xs < 10 ^ 38" using assms(3) by simp
  have "int (length xs) \<le> s" using l assms(4) by simp
  from scan_fraction_digits [OF d(1) assms(2) lt this assms(5)] obtain m
    where m: "num_val m = int (dec_acc a xs)" "scan_fraction f n s = scan_fraction (c # ys) m 0"
    using f l assms(4) by auto
  from scan_fraction_round [OF d(2) m(1) lt] m(2) obtain m' where
    m': "scan_fraction f n s = Some (m', 0)" "num_val m' = int (dec_acc a xs + (if 5 \<le> digit_val c then 1 else 0))"
    by auto
  have "length f = nat s + Suc (length ys)" using f l by simp
  then have "rounded (dec_acc a f) (length f) (nat s) = dec_acc a xs + (if 5 \<le> digit_val c then 1 else 0)"
    using rounded_half [of c ys "dec_acc a xs"] d(2) by (simp only: rounded_shift) (simp add: f dec_acc_append)
  with m' lt assms(4) show ?thesis
    by (intro exI [of _ m'] exI [of _ 0] exI [of _ "dec_acc a xs + (if 5 \<le> digit_val c then 1 else 0)"]) auto
qed

definition frac_digits :: "string option \<Rightarrow> string" where
  "frac_digits fp = (case fp of None \<Rightarrow> [] | Some f \<Rightarrow> f)"

lemma sign_not_digit: "is_digit c \<Longrightarrow> c \<noteq> CHR ''-'' \<and> c \<noteq> CHR ''+''"
  using not_digit_sign by blast

lemma fromStringFast_scan:
  assumes "sign \<in> {'''', ''-'', ''+''}" "list_all is_digit ip" "list_all is_digit (frac_digits fp)"
    and "ip \<noteq> [] \<or> fp \<noteq> None" "length (decimal_string sign ip fp) \<le> 38" "0 \<le> s" "s < 2 ^ 31"
  shows "\<exists>m t b. fromStringFast (decimal_string sign ip fp) prec s =
      Rescale (if sign = ''-'' then Neg m else m) prec t \<and>
    num_val m = int b \<and> b \<le> 10 ^ 38 \<and> 0 \<le> t \<and> t \<le> s \<and>
    b * 10 ^ nat t = rounded (dec_acc 0 (ip @ frac_digits fp)) (length (frac_digits fp)) (nat s)"
proof -
  let ?body = "ip @ (case fp of None \<Rightarrow> [] | Some f \<Rightarrow> CHR ''.'' # f)"
  have ne: "?body \<noteq> []" using assms(4) by (auto split: option.splits)
  have hd: "hd ?body \<noteq> CHR ''-''" "hd ?body \<noteq> CHR ''+''"
    using assms(2,4) by (cases ip; auto split: option.splits dest: sign_not_digit)+
  have len: "0 < length (decimal_string sign ip fp)" using ne by (auto simp: decimal_string_def)
  have unf: "fromStringFast (decimal_string sign ip fp) prec s = fast_scan (sign = ''-'') ?body prec s"
    using assms(1,5) len hd ne
    by (cases ?body) (auto simp: fromStringFast_def decimal_string_def Let_def)
  have "dec_acc 0 (ip @ frac_digits fp) < 10 ^ length (ip @ frac_digits fp)"
    using assms(2,3) by (intro dec_acc_less) simp
  also have "\<dots> \<le> (10::nat) ^ 38"
    using assms(5) by (intro power_increasing) (auto simp: decimal_string_def frac_digits_def split: option.splits)
  finally have lt: "dec_acc 0 (ip @ frac_digits fp) < 10 ^ 38" .
  have "dec_acc 0 ip \<le> dec_acc 0 (ip @ frac_digits fp)" unfolding dec_acc_append by (rule dec_acc_ge)
  with lt have "dec_acc 0 ip < 10 ^ 38" by linarith
  with scan_int_digits [OF assms(2), of zero_Num 0] obtain m
    where m: "num_val m = int (dec_acc 0 ip)" "\<And>rest. scan_int (ip @ rest) zero_Num = scan_int rest m"
    by (auto simp: zero_Num_num_val)
  show ?thesis
  proof (cases fp)
    case None
    then show ?thesis
      using unf m(1) m(2) [of "[]"] assms(6) lt rounded_exact [of 0 "nat s" "dec_acc 0 ip"]
      by (intro exI [of _ m] exI [of _ s] exI [of _ "dec_acc 0 ip"]) (simp add: frac_digits_def fast_scan_def)
  next
    case (Some f)
    have sc: "scan_int (CHR ''.'' # f) m = ScanDot m f"
      using sub0_dot [of "CHR ''.''"] by (simp add: Let_def)
    from scan_fraction_val [OF _ m(1), of f s] assms(3,6,7) lt Some obtain m' t b where
      "scan_fraction f m s = Some (m', t)" "num_val m' = int b" "b \<le> 10 ^ 38" "0 \<le> t" "t \<le> s"
      "b * 10 ^ nat t = rounded (dec_acc (dec_acc 0 ip) f) (length f) (nat s)"
      by (auto simp: frac_digits_def dec_acc_append)
    then show ?thesis
      using unf m(2) sc Some
      by (intro exI [of _ m'] exI [of _ t] exI [of _ b]) (simp add: frac_digits_def dec_acc_append fast_scan_def)
  qed
qed

lemma fromStringFast_val:
  assumes "sign \<in> {'''', ''-'', ''+''}" "list_all is_digit ip" "list_all is_digit (frac_digits fp)"
    and "ip \<noteq> [] \<or> fp \<noteq> None" "length (decimal_string sign ip fp) \<le> 38" "0 \<le> s" "s \<le> p" "p \<le> 38"
  defines "r \<equiv> rounded (dec_acc 0 (ip @ frac_digits fp)) (length (frac_digits fp)) (nat s)"
  shows "if r < 10 ^ nat p
    then \<exists>n. fromStringFast (decimal_string sign ip fp) p s = Ok n \<and>
           num_val n = (if sign = ''-'' then - int r else int r)
    else \<exists>n t. fromStringFast (decimal_string sign ip fp) p s = Err (OutOfRange n p t)"
proof -
  have "s < 2 ^ 31" using assms by simp
  from fromStringFast_scan [OF assms(1-6) this, of p] obtain m t b where
    m: "fromStringFast (decimal_string sign ip fp) p s = Rescale (if sign = ''-'' then Neg m else m) p t"
    "num_val m = int b" "b \<le> 10 ^ 38" "0 \<le> t" "t \<le> s" and r: "b * 10 ^ nat t = r"
    unfolding r_def by blast
  define k where "k = (if sign = ''-'' then Neg m else m)"
  have "num_val (Neg m) = - int b" using m(2,3) by (simp add: num_val_exact in_range128_def)
  then have k: "num_val k = (if sign = ''-'' then - int b else int b)" using m(2) by (simp add: k_def)
  have "int r = int b * 10 ^ nat t" by (simp flip: r)
  then have v: "num_val k * 10 ^ nat t = (if sign = ''-'' then - int r else int r)" using k by simp
  then have "\<bar>num_val k * 10 ^ nat t\<bar> < 10 ^ nat p \<longleftrightarrow> int r < int (10 ^ nat p)" by simp
  then have b: "\<bar>num_val k * 10 ^ nat t\<bar> < 10 ^ nat p \<longleftrightarrow> r < 10 ^ nat p" by (simp only: of_nat_less_iff)
  have "t \<le> p" using m(5) assms(7) by simp
  from Rescale_val [OF m(4) this assms(8), of k] show ?thesis
    unfolding m(1) b v by (auto simp: k_def)
qed

lemma scan_int_End: "scan_int s n = ScanEnd m \<Longrightarrow> list_all is_digit s"
  by (induction s n rule: scan_int.induct) (auto simp: Let_def sub0_digit(1) split: if_splits)

lemma scan_int_Dot:
  "scan_int s n = ScanDot m r \<Longrightarrow> \<exists>ip. s = ip @ CHR ''.'' # r \<and> list_all is_digit ip"
proof (induction s n rule: scan_int.induct)
  case (2 c cs n)
  show ?case
  proof (cases "9 < sub0 c")
    case True
    then have "c = CHR ''.''" "cs = r" using 2(2) sub0_dot [of c] by (auto simp: Let_def split: if_splits)
    then show ?thesis by auto
  next
    case False
    then obtain ip where "cs = ip @ CHR ''.'' # r" "list_all is_digit ip"
      using 2 by (auto simp: Let_def)
    moreover have "is_digit c" using False sub0_digit(1) by simp
    ultimately show ?thesis by (intro exI [of _ "c # ip"]) simp
  qed
qed auto

lemma scan_fraction_shape: "scan_fraction s n t = Some r \<Longrightarrow> list_all is_digit s"
proof (induction s n t rule: scan_fraction.induct)
  case (2 c cs n t)
  then show ?case
    using sub0_digit(1) by (auto simp: Let_def list_all_iff list_ex_iff split: if_splits)
qed auto

lemma fromStringFast_shape:
  assumes "fromStringFast s p sc = Ok n" "length s < 2 ^ 31"
  shows "\<exists>sign ip fp. s = decimal_string sign ip fp \<and> sign \<in> {'''', ''-'', ''+''} \<and>
    list_all is_digit ip \<and> list_all is_digit (frac_digits fp) \<and> (ip \<noteq> [] \<or> fp \<noteq> None) \<and> length s \<le> 38"
proof -
  define sg where "sg = (if hd s = CHR ''-'' \<or> hd s = CHR ''+'' then [hd s] else [])"
  define b where "b = (if hd s = CHR ''-'' \<or> hd s = CHR ''+'' then tl s else s)"
  have len: "s \<noteq> []" "length s \<le> 38" and ne: "b \<noteq> []"
    using assms by (auto simp: fromStringFast_def Let_def b_def split: if_splits)
  have s: "s = sg @ b" "sg \<in> {'''', ''-'', ''+''}" using len by (auto simp: sg_def b_def)
  have "(\<exists>m. scan_int b zero_Num = ScanEnd m) \<or>
      (\<exists>m r q. scan_int b zero_Num = ScanDot m r \<and> scan_fraction r m sc = Some q)"
    using assms by (auto simp: fromStringFast_def fast_scan_def Let_def b_def split: if_splits int_scan.splits option.splits)
  then show ?thesis
  proof (elim disjE exE conjE)
    fix m assume "scan_int b zero_Num = ScanEnd m"
    then have "list_all is_digit b" by (rule scan_int_End)
    with s ne len show ?thesis
      by (intro exI [of _ sg] exI [of _ b] exI [of _ None]) (simp add: decimal_string_def frac_digits_def)
  next
    fix m r q assume sc: "scan_int b zero_Num = ScanDot m r" "scan_fraction r m sc = Some q"
    then obtain ip where "b = ip @ CHR ''.'' # r" "list_all is_digit ip" using scan_int_Dot by blast
    moreover have "list_all is_digit r" using sc(2) by (rule scan_fraction_shape)
    ultimately show ?thesis using s len
      by (intro exI [of _ sg] exI [of _ ip] exI [of _ "Some r"]) (simp add: decimal_string_def frac_digits_def)
  qed
qed

lemma round_slow_nonneg: "0 \<le> x \<Longrightarrow> round_slow x = \<lfloor>x + 1 / 2\<rfloor>"
proof -
  assume "0 \<le> x"
  then have "round_slow x = (if 1 / 2 \<le> x - of_int \<lfloor>x\<rfloor> then \<lfloor>x\<rfloor> + 1 else \<lfloor>x\<rfloor>)"
    using of_int_floor_le [of x] by (simp add: round_slow_def trunc_rat_def Let_def not_less)
  also have "\<dots> = \<lfloor>x + 1 / 2\<rfloor>"
    by (simp add: floor_eq_iff [of x] eq_commute [of _ "\<lfloor>x + 1 / 2\<rfloor>"] floor_eq_iff) linarith
  finally show ?thesis .
qed

lemma round_slow_neg: "x < 0 \<Longrightarrow> round_slow x = \<lfloor>x\<rfloor>"
proof -
  assume x: "x < 0"
  have "x - of_int \<lceil>x\<rceil> < 0 \<longleftrightarrow> x \<notin> \<int>"
    by (metis Ints_of_int ceiling_of_int diff_less_0_iff_less le_of_int_ceiling less_le Ints_cases)
  then show ?thesis
    using x by (auto simp: round_slow_def trunc_rat_def Let_def ceiling_altdef elim: Ints_cases)
qed

lemma FromString_fast: "fromStringFast v p s = Ok n \<Longrightarrow> FromString pf mul v p s = Ok n"
  by (simp add: FromString_def)

lemma FromString_Inf:
  assumes "pf ''Inf'' = Some (Infinite True)"
  shows "FromString pf mul ''Inf'' p s = Panic"
proof -
  have "fromStringFast ''Inf'' p s = Err FallbackNeeded"
    by (simp add: fromStringFast_def fast_scan_def Let_def sub0_def)
  then show ?thesis using assms by (simp add: FromString_def fromStringSlow_def)
qed

section \<open>Properties\<close>

text \<open>Within the supported precisions, the test is that the magnitude is below ten to the
  precision, for every 128-bit value including -2^127.\<close>

theorem FitsInPrecision_correct:
  "0 \<le> prec \<Longrightarrow> prec \<le> 38 \<Longrightarrow> FitsInPrecision n prec = Some (\<bar>num_val n\<bar> < 10 ^ nat prec)"
  by (rule FitsInPrecision_val)

theorem FitsInPrecision_correct_witness: "FitsInPrecision MinInt128 38 = Some False"
  using FitsInPrecision_correct [of 38 MinInt128] by (simp add: MinInt128_val)

text \<open>C23. Rescaling multiplies by ten to the scale exactly when the scaled value fits the precision
  and is an error otherwise; the multiplication never overflows.\<close>

theorem Rescale_correct:
  "0 \<le> s \<Longrightarrow> s \<le> p \<Longrightarrow> p \<le> 38 \<Longrightarrow>
   (if \<bar>num_val n * 10 ^ nat s\<bar> < 10 ^ nat p
    then \<exists>m. Rescale n p s = Ok m \<and> num_val m = num_val n * 10 ^ nat s
    else Rescale n p s = Err (OutOfRange n p s))"
  using Rescale_val [of s p n] by auto

theorem Rescale_correct_witness:
  "\<exists>m. Rescale (FromInt64 (- 12)) 5 3 = Ok m \<and> num_val m = - 12000"
  using Rescale_correct [of 3 5 "FromInt64 (- 12)"] by (simp add: FromInt64_num_val)

text \<open>C9. On an optionally signed decimal string of at most 38 characters, the fast path returns the
  denoted number times ten to the scale, rounded half away from zero, when that fits the precision,
  and an out-of-range error when it does not.\<close>

theorem fromStringFast_correct:
  assumes "sign \<in> {'''', ''-'', ''+''}" "list_all is_digit ip" "list_all is_digit (frac_digits fp)"
    and "ip \<noteq> [] \<or> fp \<noteq> None" "length (decimal_string sign ip fp) \<le> 38"
    and "0 \<le> s" "s \<le> p" "p \<le> 38"
  shows "let r = rounded (dec_acc 0 (ip @ frac_digits fp)) (length (frac_digits fp)) (nat s)
    in if r < 10 ^ nat p
       then \<exists>n. fromStringFast (decimal_string sign ip fp) p s = Ok n \<and>
              num_val n = (if sign = ''-'' then - int r else int r)
       else \<exists>n t. fromStringFast (decimal_string sign ip fp) p s = Err (OutOfRange n p t)"
  using fromStringFast_val [OF assms] by (simp only: Let_def)

theorem fromStringFast_correct_witness:
  "\<exists>n. fromStringFast ''-12.345'' 10 2 = Ok n \<and> num_val n = - 1235"
proof -
  have "decimal_string ''-'' ''12'' (Some ''345'') = ''-12.345''"
    "rounded (dec_acc 0 (''12'' @ frac_digits (Some ''345''))) (length (frac_digits (Some ''345''))) (nat 2) = 1235"
    by (simp_all add: decimal_string_def rounded_def frac_digits_def digit_val_def)
  then show ?thesis
    using fromStringFast_correct [of "''-''" "''12''" "Some ''345''" 2 10]
    by (simp add: is_digit_def frac_digits_def Let_def)
qed

text \<open>The fast path accepts nothing but decimal strings of at most 38 characters: an optional
  sign, digits, and optionally a point followed by digits.\<close>

theorem fromStringFast_accepts_decimals:
  "fromStringFast s p sc = Ok n \<Longrightarrow> length s < 2 ^ 31 \<Longrightarrow>
   \<exists>sign ip fp. s = decimal_string sign ip fp \<and> sign \<in> {'''', ''-'', ''+''} \<and>
     list_all is_digit ip \<and> list_all is_digit (frac_digits fp) \<and> (ip \<noteq> [] \<or> fp \<noteq> None) \<and> length s \<le> 38"
  by (rule fromStringFast_shape)

theorem fromStringFast_accepts_decimals_witness:
  "\<exists>sign ip fp. ''7.5'' = decimal_string sign ip fp \<and> sign \<in> {'''', ''-'', ''+''} \<and>
     list_all is_digit ip \<and> list_all is_digit (frac_digits fp) \<and> (ip \<noteq> [] \<or> fp \<noteq> None) \<and> length ''7.5'' \<le> 38"
proof -
  have "fromStringFast ''7.5'' 10 1 = Ok (FromInt64 75)" by code_simp
  then show ?thesis by (rule fromStringFast_accepts_decimals) simp
qed



text \<open>C39. On the string \<^verbatim>\<open>Inf\<close>, which \<^verbatim>\<open>big.ParseFloat\<close> accepts as an
  infinity, the conversion does not return an error but panics, for every precision and
  scale.\<close>

theorem FromString_Inf_panics:
  "pf ''Inf'' = Some (Infinite True) \<Longrightarrow> FromString pf mul ''Inf'' p s = Panic"
  by (rule FromString_Inf)

theorem FromString_Inf_panics_witness:
  "FromString (\<lambda>v. if v = ''Inf'' then Some (Infinite True) else None) (*) ''Inf'' 38 0 = Panic"
  by (rule FromString_Inf_panics) simp

end
