(* ===== verification/Snowflake_Stats.thy ===== *)
theory Snowflake_Stats
  imports Int128 "HOL-Library.List_Lexorder"
begin

text \<open>
  Model of \<^verbatim>\<open>src/internal/impl/snowflake/streaming/stats.go\<close>: the per-column statistics
  that are sent with a file. A \<^verbatim>\<open>float64\<close> is its 64 bits. The locale
  \<open>running_extreme\<close> is the contract the three kinds of minimum and maximum share; it is
  interpreted on the comparisons the code uses, and gives that statistics of two row groups merge
  to the statistics of the concatenation.
\<close>

section \<open>Comparisons\<close>

type_synonym float64 = "64 word"

definition f_mag :: "float64 \<Rightarrow> int" where
  "f_mag a = uint a mod 2 ^ 63"

definition math_IsNaN :: "float64 \<Rightarrow> bool" where
  "math_IsNaN a \<longleftrightarrow> 0x7FF0000000000000 < f_mag a"

definition f_ord :: "float64 \<Rightarrow> int" where
  "f_ord a = (if 2 ^ 63 \<le> uint a then - f_mag a else f_mag a)"

text \<open>Go's \<open><\<close> on \<^verbatim>\<open>float64\<close>: false on NaN, and the two zeros are equal.\<close>

definition f_less :: "float64 \<Rightarrow> float64 \<Rightarrow> bool" where
  "f_less a b \<longleftrightarrow> \<not> math_IsNaN a \<and> \<not> math_IsNaN b \<and> f_ord a < f_ord b"

definition rawDoubleBits :: "float64 \<Rightarrow> int64" where
  "rawDoubleBits a = (if math_IsNaN a then 0x7FF8000000000001 else a)"

definition compareDouble :: "float64 \<Rightarrow> float64 \<Rightarrow> int" where
  "compareDouble a b =
     (if f_less a b then -1
      else if f_less b a then 1
      else
        (let aBits = rawDoubleBits a; bBits = rawDoubleBits b
         in if aBits = bBits then 0
            else if sint aBits < sint bBits then -1
            else 1))"

fun bytes_Compare :: "byte list \<Rightarrow> byte list \<Rightarrow> int" where
  "bytes_Compare [] [] = 0"
| "bytes_Compare [] (y # ys) = -1"
| "bytes_Compare (x # xs) [] = 1"
| "bytes_Compare (x # xs) (y # ys) = (if x < y then -1 else if y < x then 1 else bytes_Compare xs ys)"

text \<open>A nil slice compares as an empty one.\<close>

fun nil_slice :: "byte list option \<Rightarrow> byte list" where
  "nil_slice None = []"
| "nil_slice (Some b) = b"

section \<open>The buffer\<close>

record statsBuffer =
  minIntVal :: Num
  maxIntVal :: Num
  minRealVal :: float64
  maxRealVal :: float64
  minStrVal :: "byte list option"
  maxStrVal :: "byte list option"
  maxStrLen :: int
  nullCount :: int64
  hasData :: bool

definition empty_stats :: statsBuffer where
  "empty_stats =
     \<lparr>minIntVal = zero_Num, maxIntVal = zero_Num, minRealVal = 0, maxRealVal = 0,
      minStrVal = None, maxStrVal = None, maxStrLen = 0, nullCount = 0, hasData = False\<rparr>"

definition UpdateIntStats :: "statsBuffer \<Rightarrow> Num \<Rightarrow> statsBuffer" where
  "UpdateIntStats s v =
     (if \<not> hasData s then s\<lparr>minIntVal := v, maxIntVal := v, hasData := True\<rparr>
      else s\<lparr>minIntVal := Min_Num (minIntVal s) v, maxIntVal := Max_Num (maxIntVal s) v\<rparr>)"

definition UpdateFloat64Stats :: "statsBuffer \<Rightarrow> float64 \<Rightarrow> statsBuffer" where
  "UpdateFloat64Stats s v =
     (if \<not> hasData s then s\<lparr>minRealVal := v, maxRealVal := v, hasData := True\<rparr>
      else
        (let s = (if compareDouble v (minRealVal s) < 0 then s\<lparr>minRealVal := v\<rparr> else s)
         in if 0 < compareDouble v (maxRealVal s) then s\<lparr>maxRealVal := v\<rparr> else s))"

definition UpdateBytesStats :: "statsBuffer \<Rightarrow> byte list \<Rightarrow> statsBuffer" where
  "UpdateBytesStats s v =
     (if \<not> hasData s then
        s\<lparr>minStrVal := Some v, maxStrVal := Some v, maxStrLen := int (length v), hasData := True\<rparr>
      else
        (let s = (if bytes_Compare v (nil_slice (minStrVal s)) < 0 then s\<lparr>minStrVal := Some v\<rparr> else s);
             s = (if 0 < bytes_Compare v (nil_slice (maxStrVal s)) then s\<lparr>maxStrVal := Some v\<rparr> else s)
         in s\<lparr>maxStrLen := max (maxStrLen s) (int (length v))\<rparr>))"

definition mergeStats :: "statsBuffer \<Rightarrow> statsBuffer \<Rightarrow> statsBuffer" where
  "mergeStats a b =
     (let c = empty_stats\<lparr>hasData := True\<rparr>;
          c =
            (if hasData a \<and> hasData b then
               c\<lparr>minIntVal := Min_Num (minIntVal a) (minIntVal b),
                 maxIntVal := Max_Num (maxIntVal a) (maxIntVal b),
                 minRealVal :=
                   (if compareDouble (minRealVal b) (minRealVal a) < 0 then minRealVal b else minRealVal a),
                 maxRealVal :=
                   (if 0 < compareDouble (maxRealVal b) (maxRealVal a) then maxRealVal b else maxRealVal a),
                 maxStrLen := max (maxStrLen a) (maxStrLen b),
                 minStrVal :=
                   (if bytes_Compare (nil_slice (minStrVal b)) (nil_slice (minStrVal a)) < 0 then minStrVal b
                    else minStrVal a),
                 maxStrVal :=
                   (if 0 < bytes_Compare (nil_slice (maxStrVal b)) (nil_slice (maxStrVal a)) then maxStrVal b
                    else maxStrVal a)\<rparr>
             else if hasData a then a
             else if hasData b then b
             else c\<lparr>hasData := False\<rparr>)
      in c\<lparr>nullCount := nullCount a + nullCount b\<rparr>)"

text \<open>What one row of a column does to its statistics; a converter writes rows of one kind and
  nulls.\<close>

datatype stat_event = IntVal Num | RealVal float64 | BytesVal "byte list" | NullVal

fun apply_event :: "statsBuffer \<Rightarrow> stat_event \<Rightarrow> statsBuffer" where
  "apply_event s (IntVal v) = UpdateIntStats s v"
| "apply_event s (RealVal v) = UpdateFloat64Stats s v"
| "apply_event s (BytesVal v) = UpdateBytesStats s v"
| "apply_event s NullVal = s\<lparr>nullCount := nullCount s + 1\<rparr>"

definition collect_stats :: "stat_event list \<Rightarrow> statsBuffer" where
  "collect_stats = foldl apply_event empty_stats"

section \<open>Running extremes\<close>

locale running_extreme =
  fixes better :: "'a \<Rightarrow> 'a \<Rightarrow> bool"
    and pick :: "'a \<Rightarrow> 'a \<Rightarrow> 'a"
  assumes irrefl: "\<not> better a a"
    and trans: "better a b \<Longrightarrow> better b c \<Longrightarrow> better a c"
    and negtrans: "better a c \<Longrightarrow> better a b \<or> better b c"
    and pick: "pick m v = (if better v m then v else m)"
begin

lemma pick_assoc: "pick (pick a b) c = pick a (pick b c)"
  using irrefl [of a] trans [of c b a] negtrans [of c a b]
  by (cases "better b a"; cases "better c b") (auto simp: pick)

lemma foldl_pick: "foldl pick (pick x y) ys = pick x (foldl pick y ys)"
  by (induction ys arbitrary: y) (simp_all add: pick_assoc)

lemma merge: "pick (foldl pick x xs) (foldl pick y ys) = foldl pick x (xs @ y # ys)"
  by (simp add: foldl_pick)

lemma foldl_in: "foldl pick x xs \<in> insert x (set xs)"
  by (induction xs arbitrary: x) (auto simp: pick split: if_splits)

lemma foldl_best: "y \<in> insert x (set xs) \<Longrightarrow> \<not> better y (foldl pick x xs)"
proof (induction xs arbitrary: x y)
  case (Cons a xs)
  let ?r = "foldl pick (pick x a) xs"
  have r: "\<not> better (pick x a) ?r" by (rule Cons.IH) simp
  have "\<not> better x (pick x a)" "\<not> better a (pick x a)"
    unfolding pick using irrefl trans by auto
  then have "\<not> better x ?r" "\<not> better a ?r" using r negtrans by blast+
  with Cons show ?case by auto
qed (simp add: irrefl)

end

definition double_key :: "float64 \<Rightarrow> int" where
  "double_key a = (if math_IsNaN a then 2 ^ 65 else 2 * f_ord a - (if a = 2 ^ 63 then 1 else 0))"

lemma f_mag_bounds: "0 \<le> f_mag a" "f_mag a < 2 ^ 63"
  by (simp_all add: f_mag_def)

lemma uint_f_mag: "uint a = f_mag a + (if 2 ^ 63 \<le> uint a then 2 ^ 63 else 0)"
proof (cases "2 ^ 63 \<le> uint a")
  case True
  have "uint a mod 2 ^ 63 = (uint a - 2 ^ 63) mod 2 ^ 63" by simp
  also have "\<dots> = uint a - 2 ^ 63" using True uint_lt2p [of a] by (intro mod_pos_pos_trivial) simp_all
  finally show ?thesis using True by (simp add: f_mag_def)
qed (simp add: f_mag_def)

lemma uint_eqI: "f_mag a = f_mag b \<Longrightarrow> (2 ^ 63 \<le> uint a) = (2 ^ 63 \<le> uint b) \<Longrightarrow> a = b"
  using uint_f_mag [of a] uint_f_mag [of b] by (intro word_uint_eqI) (simp only:)

lemma f_mag_0: "f_mag a = 0 \<longleftrightarrow> a = 0 \<or> a = 2 ^ 63"
proof
  assume "f_mag a = 0"
  then have "a = (if 2 ^ 63 \<le> uint a then 2 ^ 63 else 0)"
    by (intro uint_eqI) (auto simp: f_mag_def)
  then show "a = 0 \<or> a = 2 ^ 63" by (auto split: if_splits)
qed (auto simp: f_mag_def)

lemma f_ord_eq: "f_ord a = f_ord b \<longleftrightarrow> a = b \<or> f_mag a = 0 \<and> f_mag b = 0"
proof (cases "(2 ^ 63 \<le> uint a) = (2 ^ 63 \<le> uint b)")
  case True
  then have "f_ord a = f_ord b \<longleftrightarrow> f_mag a = f_mag b" by (simp only: f_ord_def) simp
  with True show ?thesis using uint_eqI [of a b] by metis
next
  case False
  then have "f_ord a = f_ord b \<longleftrightarrow> f_mag a = - f_mag b" by (auto simp only: f_ord_def split: if_split)
  moreover have "a \<noteq> b" using False by blast
  ultimately show ?thesis using f_mag_bounds [of a] f_mag_bounds [of b] by auto
qed

lemma sint64_cases: "sint (x :: 64 word) = (if 2 ^ 63 \<le> uint x then uint x - 2 ^ 64 else uint x)"
proof -
  have r: "- (2 ^ 63) \<le> sint x" "sint x < 2 ^ 63" using sint_range_size [of x] by (simp_all add: word_size)
  have u: "uint x = sint x mod 2 ^ 64" by (simp add: uint_sint take_bit_eq_mod)
  show ?thesis
  proof (cases "sint x < 0")
    case True
    then have "uint x = sint x + 2 ^ 64" unfolding u using r by (intro mod_neg64) simp_all
    then show ?thesis using r by simp
  next
    case False
    then have "uint x = sint x" unfolding u using r by (intro mod_pos_pos_trivial) simp_all
    then show ?thesis using r by simp
  qed
qed

lemma rawDoubleBits_nan: "\<not> math_IsNaN b \<Longrightarrow> sint b < sint (0x7FF8000000000001 :: 64 word)"
proof -
  assume "\<not> math_IsNaN b"
  then have "f_mag b \<le> 0x7FF0000000000000" by (simp add: math_IsNaN_def)
  moreover have "sint b \<le> f_mag b"
    using uint_f_mag [of b] f_mag_bounds [of b] unfolding sint64_cases by (auto split: if_splits)
  ultimately show ?thesis by simp
qed

lemma compareDouble_key: "compareDouble a b = cmp_Compare (double_key a) (double_key b)"
proof -
  have bnd: "- (2 ^ 63) < f_ord x" "f_ord x < 2 ^ 63" for x
    using f_mag_bounds [of x] by (auto simp: f_ord_def)
  have z: "f_ord 0 = 0" "f_ord (2 ^ 63) = 0" "\<not> math_IsNaN 0" "\<not> math_IsNaN (2 ^ 63)"
    by (simp_all add: f_ord_def f_mag_def math_IsNaN_def)
  consider (nn) "math_IsNaN a" "math_IsNaN b" | (nb) "math_IsNaN a" "\<not> math_IsNaN b"
    | (an) "\<not> math_IsNaN a" "math_IsNaN b" | (eq) "\<not> math_IsNaN a" "\<not> math_IsNaN b" "f_ord a = f_ord b"
    | (ne) "\<not> math_IsNaN a" "\<not> math_IsNaN b" "f_ord a \<noteq> f_ord b" by blast
  then show ?thesis
  proof cases
    case nb
    then show ?thesis using rawDoubleBits_nan [OF nb(2)] bnd [of b]
      by (auto simp: compareDouble_def f_less_def rawDoubleBits_def double_key_def cmp_Compare_def)
  next
    case an
    then show ?thesis using rawDoubleBits_nan [OF an(1)] bnd [of a]
      by (auto simp: compareDouble_def f_less_def rawDoubleBits_def double_key_def cmp_Compare_def)
  next
    case eq
    then have "a = b \<or> (a = 0 \<or> a = 2 ^ 63) \<and> (b = 0 \<or> b = 2 ^ 63)"
      using f_ord_eq f_mag_0 by blast
    with eq show ?thesis
      by (auto simp: compareDouble_def f_less_def rawDoubleBits_def double_key_def cmp_Compare_def z)
  next
    case ne
    then show ?thesis
      by (auto simp: compareDouble_def f_less_def double_key_def cmp_Compare_def)
  qed (simp add: compareDouble_def f_less_def rawDoubleBits_def double_key_def cmp_Compare_def)
qed

lemma f_ord_bounds: "- (2 ^ 63) < f_ord a" "f_ord a < 2 ^ 63"
  using f_mag_bounds [of a] by (auto simp: f_ord_def)

lemma double_key_nan: "math_IsNaN a \<Longrightarrow> \<not> math_IsNaN b \<Longrightarrow> double_key b < double_key a"
  using f_ord_bounds [of b] by (auto simp: double_key_def)

lemma parity_eq:
  "2 * x - (if P then 1 else 0) = 2 * y - (if Q then 1 else (0::int)) \<Longrightarrow> x = y \<and> P = Q"
proof -
  assume e: "2 * x - (if P then 1 else 0) = 2 * y - (if Q then 1 else (0::int))"
  have "2 * x - 1 \<noteq> 2 * y" "2 * x \<noteq> 2 * y - 1" by presburger+
  with e show ?thesis by (cases P; cases Q) simp_all
qed

lemma double_key_eq: "double_key a = double_key b \<longleftrightarrow> a = b \<or> math_IsNaN a \<and> math_IsNaN b"
proof (cases "math_IsNaN a \<or> math_IsNaN b")
  case True
  then show ?thesis using double_key_nan [of a b] double_key_nan [of b a]
    by (auto simp: double_key_def split: if_splits)
next
  case False
  show ?thesis
  proof
    assume e: "double_key a = double_key b"
    then have k: "2 * f_ord a - (if a = 2 ^ 63 then 1 else 0) = 2 * f_ord b - (if b = 2 ^ 63 then 1 else 0)"
      using False by (simp add: double_key_def)
    then have "f_ord a = f_ord b \<and> (a = 2 ^ 63) = (b = 2 ^ 63)" by (rule parity_eq)
    then show "a = b \<or> math_IsNaN a \<and> math_IsNaN b" using f_ord_eq f_mag_0 by metis
  qed (use False in auto)
qed

lemma bytes_Compare_key: "bytes_Compare a b = cmp_Compare a b"
  by (induction a b rule: bytes_Compare.induct) (auto simp: cmp_Compare_def)

definition pick_real_min where "pick_real_min m v = (if compareDouble v m < 0 then v else m)"
definition pick_real_max where "pick_real_max m v = (if 0 < compareDouble v m then v else m)"
definition pick_str_min :: "byte list option \<Rightarrow> byte list option \<Rightarrow> byte list option" where
  "pick_str_min m v = (if bytes_Compare (nil_slice v) (nil_slice m) < 0 then v else m)"
definition pick_str_max :: "byte list option \<Rightarrow> byte list option \<Rightarrow> byte list option" where
  "pick_str_max m v = (if 0 < bytes_Compare (nil_slice v) (nil_slice m) then v else m)"

interpretation int_min: running_extreme "\<lambda>a b. num_val a < num_val b" Min_Num
  by unfold_locales (auto simp: Min_Num_def Less_num_val simp flip: num_val_inject)

interpretation int_max: running_extreme "\<lambda>a b. num_val b < num_val a" Max_Num
  by unfold_locales (auto simp: Max_Num_def Greater_num_val simp flip: num_val_inject)

interpretation real_min: running_extreme "\<lambda>a b. compareDouble a b < 0" pick_real_min
  by unfold_locales (auto simp: pick_real_min_def compareDouble_key)

interpretation real_max: running_extreme "\<lambda>a b. 0 < compareDouble a b" pick_real_max
  by unfold_locales (auto simp: pick_real_max_def compareDouble_key)

interpretation str_min: running_extreme "\<lambda>a b. bytes_Compare (nil_slice a) (nil_slice b) < 0" pick_str_min
  by unfold_locales (auto simp: pick_str_min_def bytes_Compare_key)

interpretation str_max: running_extreme "\<lambda>a b. 0 < bytes_Compare (nil_slice a) (nil_slice b)" pick_str_max
  by unfold_locales (auto simp: pick_str_max_def bytes_Compare_key)

section \<open>Statistics of a column\<close>

fun int_vals :: "stat_event list \<Rightarrow> Num list" where
  "int_vals [] = []"
| "int_vals (IntVal v # es) = v # int_vals es"
| "int_vals (_ # es) = int_vals es"

fun real_vals :: "stat_event list \<Rightarrow> float64 list" where
  "real_vals [] = []"
| "real_vals (RealVal v # es) = v # real_vals es"
| "real_vals (_ # es) = real_vals es"

fun bytes_vals :: "stat_event list \<Rightarrow> byte list list" where
  "bytes_vals [] = []"
| "bytes_vals (BytesVal v # es) = v # bytes_vals es"
| "bytes_vals (_ # es) = bytes_vals es"

definition nulls :: "stat_event list \<Rightarrow> int64" where
  "nulls es = of_nat (count_list es NullVal)"

lemma vals_append [simp]:
  "int_vals (xs @ ys) = int_vals xs @ int_vals ys"
  "real_vals (xs @ ys) = real_vals xs @ real_vals ys"
  "bytes_vals (xs @ ys) = bytes_vals xs @ bytes_vals ys"
  "nulls (xs @ ys) = nulls xs + nulls ys"
     apply (induction xs rule: int_vals.induct; simp)
    apply (induction xs rule: real_vals.induct; simp)
   apply (induction xs rule: bytes_vals.induct; simp)
  apply (simp add: nulls_def)
  done

fun int_stats :: "Num list \<Rightarrow> int64 \<Rightarrow> statsBuffer" where
  "int_stats [] n = empty_stats\<lparr>nullCount := n\<rparr>"
| "int_stats (v # vs) n = empty_stats\<lparr>nullCount := n, hasData := True,
     minIntVal := foldl Min_Num v vs, maxIntVal := foldl Max_Num v vs\<rparr>"

fun real_stats :: "float64 list \<Rightarrow> int64 \<Rightarrow> statsBuffer" where
  "real_stats [] n = empty_stats\<lparr>nullCount := n\<rparr>"
| "real_stats (v # vs) n = empty_stats\<lparr>nullCount := n, hasData := True,
     minRealVal := foldl pick_real_min v vs, maxRealVal := foldl pick_real_max v vs\<rparr>"

fun bytes_stats :: "byte list list \<Rightarrow> int64 \<Rightarrow> statsBuffer" where
  "bytes_stats [] n = empty_stats\<lparr>nullCount := n\<rparr>"
| "bytes_stats (v # vs) n = empty_stats\<lparr>nullCount := n, hasData := True,
     minStrVal := foldl pick_str_min (Some v) (map Some vs), maxStrVal := foldl pick_str_max (Some v) (map Some vs),
     maxStrLen := foldl max (int (length v)) (map (int \<circ> length) vs)\<rparr>"

lemma UpdateIntStats_stats: "UpdateIntStats (int_stats vs n) v = int_stats (vs @ [v]) n"
  by (cases vs) (simp_all add: UpdateIntStats_def empty_stats_def)

lemma UpdateFloat64Stats_stats: "UpdateFloat64Stats (real_stats vs n) v = real_stats (vs @ [v]) n"
  by (cases vs) (simp_all add: UpdateFloat64Stats_def empty_stats_def pick_real_min_def pick_real_max_def Let_def)

lemma UpdateBytesStats_stats: "UpdateBytesStats (bytes_stats vs n) v = bytes_stats (vs @ [v]) n"
  by (cases vs) (simp_all add: UpdateBytesStats_def empty_stats_def pick_str_min_def pick_str_max_def Let_def)

lemma null_stats:
  "(int_stats vs n)\<lparr>nullCount := m\<rparr> = int_stats vs m" "nullCount (int_stats vs n) = n"
  "(real_stats ws n)\<lparr>nullCount := m\<rparr> = real_stats ws m" "nullCount (real_stats ws n) = n"
  "(bytes_stats bs n)\<lparr>nullCount := m\<rparr> = bytes_stats bs m" "nullCount (bytes_stats bs n) = n"
  by (cases vs; cases ws; cases bs; simp)+

lemma collect_int:
  "list_all (\<lambda>e. e = NullVal \<or> (\<exists>v. e = IntVal v)) es \<Longrightarrow> collect_stats es = int_stats (int_vals es) (nulls es)"
proof (induction es rule: rev_induct)
  case (snoc e es)
  then show ?case
    by (auto simp: collect_stats_def UpdateIntStats_stats null_stats nulls_def)
qed (simp add: collect_stats_def nulls_def empty_stats_def)

lemma collect_real:
  "list_all (\<lambda>e. e = NullVal \<or> (\<exists>v. e = RealVal v)) es \<Longrightarrow> collect_stats es = real_stats (real_vals es) (nulls es)"
proof (induction es rule: rev_induct)
  case (snoc e es)
  then show ?case
    by (auto simp: collect_stats_def UpdateFloat64Stats_stats null_stats nulls_def)
qed (simp add: collect_stats_def nulls_def empty_stats_def)

lemma collect_bytes:
  "list_all (\<lambda>e. e = NullVal \<or> (\<exists>v. e = BytesVal v)) es \<Longrightarrow> collect_stats es = bytes_stats (bytes_vals es) (nulls es)"
proof (induction es rule: rev_induct)
  case (snoc e es)
  then show ?case
    by (auto simp: collect_stats_def UpdateBytesStats_stats null_stats nulls_def)
qed (simp add: collect_stats_def nulls_def empty_stats_def)

lemma compare_self [simp]: "compareDouble a a = 0" "bytes_Compare b b = 0"
  by (simp_all add: compareDouble_key bytes_Compare_key)

lemma Min_Max_self [simp]: "Min_Num a a = a" "Max_Num a a = a"
  by (simp_all add: Min_Num_def Max_Num_def)

lemma mergeStats_both:
  "hasData a \<Longrightarrow> hasData b \<Longrightarrow> mergeStats a b =
     \<lparr>minIntVal = Min_Num (minIntVal a) (minIntVal b), maxIntVal = Max_Num (maxIntVal a) (maxIntVal b),
      minRealVal = pick_real_min (minRealVal a) (minRealVal b),
      maxRealVal = pick_real_max (maxRealVal a) (maxRealVal b),
      minStrVal = pick_str_min (minStrVal a) (minStrVal b),
      maxStrVal = pick_str_max (maxStrVal a) (maxStrVal b),
      maxStrLen = max (maxStrLen a) (maxStrLen b), nullCount = nullCount a + nullCount b, hasData = True\<rparr>"
  by (simp add: mergeStats_def empty_stats_def pick_real_min_def pick_real_max_def pick_str_min_def
      pick_str_max_def)

lemma mergeStats_one:
  "\<not> hasData b \<Longrightarrow> hasData a \<Longrightarrow> mergeStats a b = a\<lparr>nullCount := nullCount a + nullCount b\<rparr>"
  "\<not> hasData a \<Longrightarrow> hasData b \<Longrightarrow> mergeStats a b = b\<lparr>nullCount := nullCount a + nullCount b\<rparr>"
  "\<not> hasData a \<Longrightarrow> \<not> hasData b \<Longrightarrow> mergeStats a b = empty_stats\<lparr>nullCount := nullCount a + nullCount b\<rparr>"
  by (simp_all add: mergeStats_def empty_stats_def)

lemma pick_self [simp]:
  "pick_real_min a a = a" "pick_real_max a a = a" "pick_str_min c c = c" "pick_str_max c c = c"
  by (simp_all add: pick_real_min_def pick_real_max_def pick_str_min_def pick_str_max_def)

lemma foldl_max: "max (foldl max x xs) (foldl max y ys) = foldl max (x::int) (xs @ y # ys)"
proof -
  have "foldl max (max x y) ys = max x (foldl max y ys)" for x y :: int and ys
    by (induction ys arbitrary: y) (simp_all add: max.assoc)
  then show ?thesis by simp
qed

lemmas merge_simps = mergeStats_both mergeStats_one empty_stats_def
  int_min.foldl_pick int_max.foldl_pick real_min.foldl_pick real_max.foldl_pick
  str_min.foldl_pick str_max.foldl_pick foldl_max [simplified]

lemma merge_int: "mergeStats (int_stats vs m) (int_stats ws n) = int_stats (vs @ ws) (m + n)"
  by (cases vs; cases ws) (simp_all add: merge_simps)

lemma merge_real: "mergeStats (real_stats vs m) (real_stats ws n) = real_stats (vs @ ws) (m + n)"
  by (cases vs; cases ws) (simp_all add: merge_simps)

lemma merge_bytes: "mergeStats (bytes_stats vs m) (bytes_stats ws n) = bytes_stats (vs @ ws) (m + n)"
  by (cases vs; cases ws) (simp_all add: merge_simps)

definition one_kind :: "stat_event list \<Rightarrow> bool" where
  "one_kind es \<longleftrightarrow>
     (\<forall>e \<in> set es. e = NullVal \<or> (\<exists>v. e = IntVal v)) \<or>
     (\<forall>e \<in> set es. e = NullVal \<or> (\<exists>v. e = RealVal v)) \<or>
     (\<forall>e \<in> set es. e = NullVal \<or> (\<exists>v. e = BytesVal v))"

lemma merge_collect:
  "one_kind (xs @ ys) \<Longrightarrow> mergeStats (collect_stats xs) (collect_stats ys) = collect_stats (xs @ ys)"
  unfolding one_kind_def list_all_iff [symmetric] list_all_append
  by (auto simp: collect_int collect_real collect_bytes merge_int merge_real merge_bytes)

lemma int_stats_range:
  assumes "vs \<noteq> []"
  shows "num_val (minIntVal (int_stats vs n)) = Min (num_val ` set vs) \<and>
    num_val (maxIntVal (int_stats vs n)) = Max (num_val ` set vs)"
proof -
  obtain x xs where vs: "vs = x # xs" using assms by (cases vs) auto
  have "num_val (foldl Min_Num x xs) = Min (num_val ` set vs)"
    using int_min.foldl_in [of x xs] int_min.foldl_best [of _ x xs] vs
    by (intro Min_eqI [symmetric]) (auto simp: not_less)
  moreover have "num_val (foldl Max_Num x xs) = Max (num_val ` set vs)"
    using int_max.foldl_in [of x xs] int_max.foldl_best [of _ x xs] vs
    by (intro Max_eqI [symmetric]) (auto simp: not_less)
  ultimately show ?thesis using vs by (simp add: empty_stats_def)
qed

section \<open>Properties\<close>

text \<open>C8. Merging the statistics of two row groups of a column gives the statistics of the rows of
  both in sequence, for integer, floating-point and byte columns with nulls anywhere.\<close>

theorem mergeStats_concat:
  "one_kind (xs @ ys) \<Longrightarrow> mergeStats (collect_stats xs) (collect_stats ys) = collect_stats (xs @ ys)"
  by (rule merge_collect)

theorem mergeStats_concat_witness:
  "mergeStats (collect_stats [IntVal (FromInt64 3), NullVal]) (collect_stats [IntVal (FromInt64 (- 4))]) =
   collect_stats [IntVal (FromInt64 3), NullVal, IntVal (FromInt64 (- 4))]"
  using mergeStats_concat [of "[IntVal (FromInt64 3), NullVal]" "[IntVal (FromInt64 (- 4))]"]
  by (simp add: one_kind_def)

text \<open>The integer statistics of a column with at least one value are the least and the greatest
  value written, and the number of nulls.\<close>

theorem int_column_range:
  assumes "\<forall>e \<in> set es. e = NullVal \<or> (\<exists>v. e = IntVal v)" "int_vals es \<noteq> []"
  shows "num_val (minIntVal (collect_stats es)) = Min (num_val ` set (int_vals es)) \<and>
    num_val (maxIntVal (collect_stats es)) = Max (num_val ` set (int_vals es)) \<and>
    nullCount (collect_stats es) = of_nat (count_list es NullVal)"
  using assms int_stats_range [OF assms(2)]
  by (simp add: collect_int list_all_iff null_stats nulls_def)

theorem int_column_range_witness:
  "num_val (maxIntVal (collect_stats [IntVal (FromInt64 3), NullVal, IntVal (FromInt64 (- 4))])) = 3"
  using int_column_range [of "[IntVal (FromInt64 3), NullVal, IntVal (FromInt64 (- 4))]"]
  by (simp add: FromInt64_num_val)

text \<open>C34. The comparison of floating-point values is a total order on bit patterns up to the choice
  of NaN: it is the comparison of an integer key, in which a NaN is greater than every number, a
  negative zero is below a positive one, and otherwise the IEEE order of the numbers decides.\<close>

theorem compareDouble_total_order:
  "compareDouble a b = cmp_Compare (double_key a) (double_key b) \<and>
   (double_key a = double_key b) = (a = b \<or> math_IsNaN a \<and> math_IsNaN b) \<and>
   (math_IsNaN a \<and> \<not> math_IsNaN b \<longrightarrow> compareDouble b a = - 1) \<and>
   (f_less a b \<longrightarrow> compareDouble a b = - 1)"
  by (simp add: compareDouble_key double_key_eq double_key_nan cmp_Compare_def)
    (simp add: f_less_def double_key_def)

theorem compareDouble_total_order_witness:
  "compareDouble 0x3FF0000000000000 0x7FF8000000000001 = - 1"
  using compareDouble_total_order [of "0x7FF8000000000001" "0x3FF0000000000000"]
  by (simp add: math_IsNaN_def f_mag_def)

end
