(* ===== verification/Snowflake_Compat.thy ===== *)
theory Snowflake_Compat
  imports Int128_Decimal Snowflake_Stats
begin

text \<open>
  Model of \<^verbatim>\<open>src/internal/impl/snowflake/streaming/compat.go\<close> (the parts that mirror the
  Java SDK: powers of ten, buffer padding, truncation of string statistics, column names and the
  integer form of timestamps) and of \<^verbatim>\<open>computeColumnEpInfo\<close> of \<^verbatim>\<open>stats.go\<close>.
  Key derivation, encryption, hashing and the blob path (clock and cryptography) are not modelled.
\<close>

section \<open>Powers of ten\<close>

text \<open>The \<^verbatim>\<open>init\<close> loops: each entry is ten times the previous one, at the table's width.\<close>

fun pow10_loop :: "nat \<Rightarrow> 'a::len word \<Rightarrow> 'a word list" where
  "pow10_loop 0 n = []"
| "pow10_loop (Suc k) n = (let n = 10 * n in n # pow10_loop k n)"

definition pow10TableInt64 :: "int64 list" where
  "pow10TableInt64 = 1 # pow10_loop 18 1"

definition pow10TableInt32 :: "32 word list" where
  "pow10TableInt32 = 1 # pow10_loop 18 1"

section \<open>Buffers and string statistics\<close>

definition padBuffer :: "byte list \<Rightarrow> int \<Rightarrow> byte list option" where
  "padBuffer buf alignmentSize =
     (if alignmentSize = 0 then None
      else
        (let padding = alignmentSize - int (length buf) smod alignmentSize
         in if padding < 0 then None else Some (buf @ replicate (nat padding) 0)))"

definition hex_digit :: "nat \<Rightarrow> char" where
  "hex_digit d = (if d < 10 then char_of (48 + d) else char_of (87 + d))"

definition hex_EncodeToString :: "byte list \<Rightarrow> string" where
  "hex_EncodeToString bs = concat (map (\<lambda>b. [hex_digit (unat b div 16), hex_digit (unat b mod 16)]) bs)"

fun inc_loop :: "nat \<Rightarrow> byte list \<Rightarrow> byte list option" where
  "inc_loop 0 bytes = None"
| "inc_loop (Suc i) bytes =
     (let bytes = bytes[i := bytes ! i + 1]
      in if bytes ! i \<noteq> 0 then Some bytes else inc_loop i bytes)"

definition truncateBytesAsHex :: "byte list \<Rightarrow> bool \<Rightarrow> string" where
  "truncateBytesAsHex bytes truncateUp =
     (let maxLobLen = 32
      in if length bytes \<le> maxLobLen then hex_EncodeToString bytes
         else if truncateUp then
           (case inc_loop maxLobLen bytes of
              None \<Rightarrow> ''Z''
            | Some bytes \<Rightarrow> hex_EncodeToString (take maxLobLen bytes))
         else hex_EncodeToString (take maxLobLen bytes))"

section \<open>Column names\<close>

text \<open>\<^verbatim>\<open>strings.ReplaceAll\<close> with a two-character pattern.\<close>

fun ReplaceAll2 :: "char \<Rightarrow> char \<Rightarrow> string \<Rightarrow> string \<Rightarrow> string" where
  "ReplaceAll2 p q r (c # d # cs) =
     (if c = p \<and> d = q then r @ ReplaceAll2 p q r cs else c # ReplaceAll2 p q r (d # cs))"
| "ReplaceAll2 p q r cs = cs"

definition is_lower :: "char \<Rightarrow> bool" where
  "is_lower c \<longleftrightarrow> (97::nat) \<le> of_char c \<and> of_char c \<le> (122::nat)"

definition needs_fallback :: "char \<Rightarrow> bool" where
  "needs_fallback c \<longleftrightarrow> (128::nat) \<le> of_char c \<or> c = CHR 0x5C"

definition ascii_upper :: "char \<Rightarrow> char" where
  "ascii_upper c = (if is_lower c then char_of (of_char c - 32 :: nat) else c)"

text \<open>\<open>toUpper\<close> stands for \<^verbatim>\<open>strings.ToUpper\<close>, which needs the Unicode tables.\<close>

definition upper_fallback :: "(string \<Rightarrow> string) \<Rightarrow> string \<Rightarrow> string" where
  "upper_fallback toUpper name = toUpper (ReplaceAll2 (CHR 0x5C) (CHR '' '') '' '' name)"

datatype name_scan = HasLower | NoLower | NameFallback

fun scan_lower :: "string \<Rightarrow> name_scan" where
  "scan_lower [] = NoLower"
| "scan_lower (c # cs) =
     (if is_lower c then HasLower else if needs_fallback c then NameFallback else scan_lower cs)"

fun transform_name :: "string \<Rightarrow> string option" where
  "transform_name [] = Some []"
| "transform_name (c # cs) =
     (if is_lower c then map_option ((#) (char_of (of_char c - 32 :: nat))) (transform_name cs)
      else if needs_fallback c then None
      else map_option ((#) c) (transform_name cs))"

definition normalize_unquoted :: "(string \<Rightarrow> string) \<Rightarrow> string \<Rightarrow> string" where
  "normalize_unquoted toUpper name =
     (case scan_lower name of
        NameFallback \<Rightarrow> upper_fallback toUpper name
      | NoLower \<Rightarrow> name
      | HasLower \<Rightarrow>
          (case transform_name name of
             None \<Rightarrow> upper_fallback toUpper name
           | Some t \<Rightarrow> t))"

text \<open>\<open>name[1 : len(name)-1]\<close> panics when the name is a single quote character.\<close>

definition normalizeColumnName :: "(string \<Rightarrow> string) \<Rightarrow> string \<Rightarrow> (unit, string) outcome" where
  "normalizeColumnName toUpper name =
     (if name \<noteq> [] \<and> hd name = CHR ''\"'' \<and> last name = CHR ''\"'' then
        (if length name < 2 then Panic
         else
           (let unquoted = butlast (tl name);
                noDoubleQuotes = ReplaceAll2 (CHR ''\"'') (CHR ''\"'') [] unquoted
            in if CHR ''\"'' \<notin> set noDoubleQuotes then Ok (ReplaceAll2 (CHR ''\"'') (CHR ''\"'') [CHR ''\"''] unquoted)
               else if CHR ''\"'' \<notin> set unquoted then Ok unquoted
               else Ok (normalize_unquoted toUpper name)))
      else Ok (normalize_unquoted toUpper name))"

definition quoteColumnName :: "(string \<Rightarrow> string) \<Rightarrow> string \<Rightarrow> string" where
  "quoteColumnName toUpper name =
     [CHR ''\"''] @ concat (map (\<lambda>r. if r = CHR ''\"'' then [CHR ''\"'', CHR ''\"''] else [r]) (toUpper name)) @ [CHR ''\"'']"

section \<open>Timestamps\<close>

text \<open>What the code reads of a \<^verbatim>\<open>time.Time\<close>: \<^verbatim>\<open>Unix()\<close>,
  \<^verbatim>\<open>Nanosecond()\<close> and the offset of \<^verbatim>\<open>Zone()\<close>.\<close>

record go_time =
  Unix :: int64
  Nanosecond :: int
  zone_offset :: int

definition snowflakeTimestampInt :: "go_time \<Rightarrow> int \<Rightarrow> bool \<Rightarrow> (unit, Num) outcome" where
  "snowflakeTimestampInt t scale includeTZ =
     (let epoch = FromInt64 (Unix t); k = to_int32 (9 - scale)
      in if k < 0 \<or> 19 \<le> k then Panic
         else
           (let p = sint (pow10TableInt32 ! nat k);
                fraction = to_int32 ((to_int32 (Nanosecond t) sdiv p) * p);
                timeInNanos = Add (Mul epoch (Pow10Table ! 9)) (FromInt64 (word_of_int fraction))
            in obind (of_opt (Div timeInNanos (Pow10Table ! nat k))) (\<lambda>scaledTime.
                 if includeTZ then
                   (let offsetMinutes = zone_offset t sdiv 60 + 1440;
                        scaledTime = Shl scaledTime 14
                    in Ok (Add scaledTime (FromInt64 (word_of_int (offsetMinutes AND (2 ^ 14 - 1))))))
                 else Ok scaledTime)))"

section \<open>Column properties of a file\<close>

record column_meta =
  Name :: string
  Ordinal :: int

record fileColumnProperties =
  ColumnOrdinal :: int
  NullCount :: int64
  MinStrValue :: "string option"
  MaxStrValue :: "string option"
  MaxLength :: int
  MinIntValue :: Num
  MaxIntValue :: Num
  MinRealValue :: string
  MaxRealValue :: string
  DistinctValues :: int

text \<open>\<open>jsonFloat\<close> stands for \<^verbatim>\<open>json.Marshal\<close> of a finite number.\<close>

definition math_IsInf :: "float64 \<Rightarrow> int \<Rightarrow> bool" where
  "math_IsInf f sign \<longleftrightarrow>
     0 \<le> sign \<and> f = 0x7FF0000000000000 \<or> sign \<le> 0 \<and> f = 0xFFF0000000000000"

definition asJSONNumber :: "(float64 \<Rightarrow> string) \<Rightarrow> float64 \<Rightarrow> string" where
  "asJSONNumber jsonFloat f =
     (if math_IsNaN f then ''\"NaN\"''
      else if math_IsInf f (- 1) then ''\"-Infinity\"''
      else if math_IsInf f 1 then ''\"Infinity\"''
      else jsonFloat f)"

definition column_ep :: "(float64 \<Rightarrow> string) \<Rightarrow> column_meta \<Rightarrow> statsBuffer \<Rightarrow> fileColumnProperties" where
  "column_ep jsonFloat col stat =
     \<lparr>ColumnOrdinal = Ordinal col,
      NullCount = nullCount stat,
      MinStrValue = map_option (\<lambda>b. truncateBytesAsHex b False) (minStrVal stat),
      MaxStrValue = map_option (\<lambda>b. truncateBytesAsHex b True) (maxStrVal stat),
      MaxLength = maxStrLen stat,
      MinIntValue = minIntVal stat,
      MaxIntValue = maxIntVal stat,
      MinRealValue = asJSONNumber jsonFloat (minRealVal stat),
      MaxRealValue = asJSONNumber jsonFloat (maxRealVal stat),
      DistinctValues = - 1\<rparr>"

fun ep_loop :: "(float64 \<Rightarrow> string) \<Rightarrow> column_meta list \<Rightarrow> statsBuffer list \<Rightarrow>
    (string \<rightharpoonup> fileColumnProperties) \<Rightarrow> (string \<rightharpoonup> fileColumnProperties) option" where
  "ep_loop jf [] stats info = Some info"
| "ep_loop jf (c # cs) [] info = None"
| "ep_loop jf (c # cs) (s # ss) info = ep_loop jf cs ss (info(Name c \<mapsto> column_ep jf c s))"

definition computeColumnEpInfo :: "(float64 \<Rightarrow> string) \<Rightarrow> column_meta list \<Rightarrow> statsBuffer list \<Rightarrow>
    (string \<rightharpoonup> fileColumnProperties) option" where
  "computeColumnEpInfo jsonFloat transformers stats = ep_loop jsonFloat transformers stats Map.empty"

section \<open>Lemmas\<close>

lemma pow10TableInt64_nth: "i < 19 \<Longrightarrow> sint (pow10TableInt64 ! i) = 10 ^ i"
proof -
  assume i: "i < 19"
  have "map sint pow10TableInt64 = map (\<lambda>i. 10 ^ i) [0..<19]"
    by (simp add: pow10TableInt64_def numeral_eq_Suc Let_def)
  then have "map sint pow10TableInt64 ! i = 10 ^ i" using i by simp
  moreover have "length pow10TableInt64 = 19" by (simp add: pow10TableInt64_def numeral_eq_Suc Let_def)
  ultimately show ?thesis using i by simp
qed

lemma be_val_append: "be_val (xs @ ys) = be_val xs * 256 ^ length ys + be_val ys"
  by (induction xs) (simp_all add: power_add algebra_simps)

lemma be_val_less_lex: "length xs = length ys \<Longrightarrow> xs < ys \<longleftrightarrow> be_val xs < be_val ys"
proof (induction xs ys rule: list_induct2)
  case (Cons x xs y ys)
  have b: "0 \<le> be_val xs" "be_val xs < 256 ^ length ys" "0 \<le> be_val ys" "be_val ys < 256 ^ length ys"
    using be_val_bounds [of xs] be_val_bounds [of ys] Cons.hyps by auto
  have lt: "be_val (u # us) < be_val (v # vs)"
    if "uint u < uint v" "be_val us < 256 ^ length ys" "0 \<le> be_val vs" "length us = length ys" "length vs = length ys"
    for u v us vs
  proof -
    have "(uint u + 1) * 256 ^ length ys \<le> uint v * 256 ^ length ys"
      using that(1) by (intro mult_right_mono) simp_all
    then show ?thesis using that by (simp add: distrib_right)
  qed
  consider "x < y" | "x = y" | "y < x" by (rule linorder_cases)
  then show ?case
  proof cases
    case 1
    then have "be_val (x # xs) < be_val (y # ys)" using b Cons.hyps by (intro lt) (simp_all add: word_less_def)
    with 1 show ?thesis by (simp only: Cons_less_Cons) simp
  next
    case 2
    then show ?thesis using Cons by simp
  next
    case 3
    then have "be_val (y # ys) < be_val (x # xs)" using b Cons.hyps by (intro lt) (simp_all add: word_less_def)
    with 3 show ?thesis by (simp only: Cons_less_Cons) auto
  qed
qed simp

lemma lex_prefix_less: "length xs = length ys \<Longrightarrow> xs < ys \<Longrightarrow> xs @ zs < (ys :: 'a::linorder list)"
  by (induction xs ys rule: list_induct2) auto

lemma inc_loop_spec:
  "n \<le> length bs \<Longrightarrow>
   (case inc_loop n bs of
      None \<Rightarrow> \<forall>i<n. bs ! i = 0xFF
    | Some r \<Rightarrow> length r = length bs \<and> drop n r = drop n bs \<and> be_val (take n r) = be_val (take n bs) + 1)"
proof (induction n arbitrary: bs)
  case (Suc n)
  let ?bs = "bs[n := bs ! n + 1]"
  have n: "n < length bs" using Suc.prems by simp
  have snoc: "take (Suc n) xs = take n xs @ [xs ! n]" if "n < length xs" for xs :: "byte list"
    using that by (rule take_Suc_conv_app_nth)
  have t: "take n ?bs = take n bs" by simp
  show ?case
  proof (cases "bs ! n + 1 = 0")
    case False
    then have "uint (bs ! n + 1) = uint (bs ! n) + 1"
      using uint_plus_if' [of "bs ! n" 1] uint_lt2p [of "bs ! n"] by (auto simp: word_uint_eq_iff split: if_splits)
    then show ?thesis using False n by (simp add: snoc be_val_append Let_def)
  next
    case True
    then have b: "bs ! n = 0xFF" by (simp add: eq_neg_iff_add_eq_0 [symmetric])
    have IH: "case inc_loop n ?bs of None \<Rightarrow> \<forall>i<n. ?bs ! i = 0xFF
      | Some r \<Rightarrow> length r = length ?bs \<and> drop n r = drop n ?bs \<and> be_val (take n r) = be_val (take n ?bs) + 1"
      using n by (intro Suc.IH) simp
    show ?thesis
    proof (cases "inc_loop n ?bs")
      case None
      then show ?thesis using IH b n True by (auto simp: less_Suc_eq nth_list_update Let_def)
    next
      case (Some r)
      then have r: "length r = length bs" "drop n r = drop n ?bs" "be_val (take n r) = be_val (take n bs) + 1"
        using IH by simp_all
      have "drop n ?bs = 0 # drop (Suc n) bs"
        using n True by (simp flip: Cons_nth_drop_Suc)
      then have "r ! n = 0" "drop (Suc n) r = drop (Suc n) bs"
        using r(1,2) n Cons_nth_drop_Suc [of n r] by auto
      then show ?thesis using Some r n b True by (simp add: snoc be_val_append Let_def)
    qed
  qed
qed simp

lemma truncate_up:
  assumes "32 < length bytes"
  shows "(\<forall>i<32. bytes ! i = 0xFF) \<and> truncateBytesAsHex bytes True = ''Z'' \<or>
    (\<exists>r. truncateBytesAsHex bytes True = hex_EncodeToString r \<and> length r = 32 \<and> bytes < r \<and>
         be_val r = be_val (take 32 bytes) + 1)"
proof (cases "inc_loop 32 bytes")
  case None
  then show ?thesis using inc_loop_spec [of 32 bytes] assms by (simp add: truncateBytesAsHex_def)
next
  case (Some r)
  then have r: "length r = length bytes" "be_val (take 32 r) = be_val (take 32 bytes) + 1"
    using inc_loop_spec [of 32 bytes] assms by simp_all
  then have "take 32 bytes < take 32 r" by (simp add: be_val_less_lex)
  then have "take 32 bytes @ drop 32 bytes < take 32 r" using r(1) by (intro lex_prefix_less) simp_all
  then have "bytes < take 32 r" by simp
  with Some r assms show ?thesis by (intro disjI2 exI [of _ "take 32 r"]) (simp add: truncateBytesAsHex_def)
qed

lemma take_le_lex: "take n bs \<le> (bs :: 'a::linorder list)"
  by (induction bs arbitrary: n) (auto simp: take_Cons' )

lemma ReplaceAll2_id: "p \<notin> set s \<Longrightarrow> ReplaceAll2 p q r s = s"
  by (induction p q r s rule: ReplaceAll2.induct) auto

lemma transform_name_eq:
  "transform_name s = (if \<exists>c \<in> set s. needs_fallback c \<and> \<not> is_lower c then None else Some (map ascii_upper s))"
  by (induction s) (auto simp: ascii_upper_def)

lemma lower_not_fallback: "is_lower c \<Longrightarrow> \<not> needs_fallback c"
  by (auto simp: is_lower_def needs_fallback_def)

lemma scan_lower_No: "scan_lower s = NoLower \<longleftrightarrow> (\<forall>c \<in> set s. \<not> is_lower c \<and> \<not> needs_fallback c)"
  by (induction s) auto

lemma normalize_unquoted_eq:
  assumes up: "\<And>s. \<forall>c \<in> set s. of_char c < (128::nat) \<Longrightarrow> toUpper s = map ascii_upper s"
  shows "normalize_unquoted toUpper name = upper_fallback toUpper name"
proof (cases "\<exists>c \<in> set name. needs_fallback c")
  case True
  then have "scan_lower name \<noteq> NoLower" "transform_name name = None"
    using lower_not_fallback by (auto simp: scan_lower_No transform_name_eq)
  then show ?thesis by (cases "scan_lower name") (simp_all add: normalize_unquoted_def)
next
  case False
  then have a: "\<forall>c \<in> set name. of_char c < (128::nat)" "CHR 0x5C \<notin> set name"
    by (auto simp: needs_fallback_def not_le)
  then have "upper_fallback toUpper name = map ascii_upper name"
    by (simp add: upper_fallback_def ReplaceAll2_id up)
  moreover have "scan_lower name \<noteq> NameFallback" using False
    by (induction name) auto
  moreover have "scan_lower name = NoLower \<Longrightarrow> map ascii_upper name = name"
    by (simp add: scan_lower_No ascii_upper_def map_idI)
  ultimately show ?thesis
    using False by (cases "scan_lower name") (simp_all add: normalize_unquoted_def transform_name_eq)
qed

definition esc :: "string \<Rightarrow> string" where
  "esc s = concat (map (\<lambda>r. if r = CHR ''\"'' then [CHR ''\"'', CHR ''\"''] else [r]) s)"

lemma esc_simps [simp]: "esc [] = []" "esc (c # s) = (if c = CHR ''\"'' then [CHR ''\"'', CHR ''\"''] else [c]) @ esc s"
  by (simp_all add: esc_def)

lemma esc_hd: "esc s = c # cs \<Longrightarrow> c \<noteq> CHR ''\"'' \<Longrightarrow> \<exists>s'. s = c # s' \<and> cs = esc s'"
  by (cases s) (auto split: if_splits)

lemma ReplaceAll2_other: "c \<noteq> p \<Longrightarrow> ReplaceAll2 p q r (c # s) = c # ReplaceAll2 p q r s"
  by (cases s) auto

lemma Replace_esc: "ReplaceAll2 (CHR ''\"'') (CHR ''\"'') [CHR ''\"''] (esc s) = s"
  by (induction s) (auto simp: ReplaceAll2_other)

lemma Replace_esc_none: "CHR ''\"'' \<notin> set (ReplaceAll2 (CHR ''\"'') (CHR ''\"'') [] (esc s))"
  by (induction s) (auto simp: ReplaceAll2_other)

lemma normalize_quote: "normalizeColumnName toUpper (quoteColumnName toUpper name) = Ok (toUpper name)"
  by (simp add: normalizeColumnName_def quoteColumnName_def butlast_append Replace_esc Replace_esc_none Let_def flip: esc_def)

lemma normalize_single_quote: "normalizeColumnName toUpper [CHR ''\"''] = Panic"
  by (simp add: normalizeColumnName_def)

lemma pow10TableInt32_nth: "i < 10 \<Longrightarrow> sint (pow10TableInt32 ! i) = 10 ^ i"
proof -
  assume i: "i < 10"
  have "map sint (take 10 pow10TableInt32) = map (\<lambda>i. 10 ^ i) [0..<10]"
    by (simp add: pow10TableInt32_def numeral_eq_Suc Let_def)
  then have "map sint (take 10 pow10TableInt32) ! i = 10 ^ i" using i by simp
  moreover have "length pow10TableInt32 = 19" by (simp add: pow10TableInt32_def numeral_eq_Suc Let_def)
  ultimately show ?thesis using i by simp
qed

definition scaled_time :: "go_time \<Rightarrow> int \<Rightarrow> int" where
  "scaled_time t scale = sint (Unix t) * 10 ^ nat scale + Nanosecond t div 10 ^ nat (9 - scale)"

definition valid_time :: "go_time \<Rightarrow> bool" where
  "valid_time t \<longleftrightarrow> 0 \<le> Nanosecond t \<and> Nanosecond t < 10 ^ 9"

lemma sdiv_nonneg: "0 \<le> a \<Longrightarrow> 0 < b \<Longrightarrow> a sdiv b = a div (b::int)"
  by (auto simp: signed_divide_int_def sgn_if)

lemma sdiv_mult: "p \<noteq> 0 \<Longrightarrow> (s * p) sdiv p = (s::int)"
proof -
  assume "p \<noteq> 0"
  then have "sgn p * sgn p = 1" by (simp add: sgn_if)
  then have "sgn (s * p) * sgn p * \<bar>s\<bar> = sgn s * \<bar>s\<bar>" by (simp add: sgn_mult mult.assoc)
  with \<open>p \<noteq> 0\<close> show ?thesis by (simp add: signed_divide_int_def abs_mult mult_sgn_abs)
qed

lemma sint_small: "0 \<le> f \<Longrightarrow> f < 2 ^ 63 \<Longrightarrow> sint (word_of_int f :: 64 word) = f"
  by (simp add: sint_sbintrunc' signed_take_bit_int_eq_self)

lemma scaled_time_bounds:
  assumes "valid_time t" "0 \<le> scale" "scale \<le> 9"
  shows "\<bar>scaled_time t scale\<bar> < 2 ^ 94"
proof -
  have u: "- (2 ^ 63) \<le> sint (Unix t)" "sint (Unix t) < 2 ^ 63"
    using sint_range_size [of "Unix t"] by (simp_all add: word_size)
  have "(10::int) ^ nat scale \<le> 10 ^ 9" using assms by (intro power_increasing) auto
  then have "\<bar>sint (Unix t)\<bar> * 10 ^ nat scale \<le> 2 ^ 63 * 10 ^ 9"
    using u by (intro mult_mono) auto
  then have a: "\<bar>sint (Unix t) * 10 ^ nat scale\<bar> \<le> 2 ^ 63 * 10 ^ 9" by (simp add: abs_mult)
  have "0 \<le> Nanosecond t div 10 ^ nat (9 - scale)" "Nanosecond t div 10 ^ nat (9 - scale) \<le> Nanosecond t"
    using assms(1) by (simp_all add: valid_time_def pos_imp_zdiv_nonneg_iff zdiv_mono2 [of _ 1, simplified])
  then have "0 \<le> Nanosecond t div 10 ^ nat (9 - scale)" "Nanosecond t div 10 ^ nat (9 - scale) < 10 ^ 9"
    using assms(1) by (auto simp: valid_time_def)
  with a show ?thesis unfolding scaled_time_def by simp
qed

lemma timestamp_nanos:
  assumes "valid_time t" "0 \<le> scale" "scale \<le> 9"
  shows "num_val (Add (Mul (FromInt64 (Unix t)) (Pow10Table ! 9))
      (FromInt64 (word_of_int (Nanosecond t div 10 ^ nat (9 - scale) * 10 ^ nat (9 - scale)))))
    = scaled_time t scale * 10 ^ nat (9 - scale)"
proof -
  let ?p = "10 ^ nat (9 - scale) :: int"
  let ?f = "Nanosecond t div ?p * ?p"
  have f: "0 \<le> ?f" "?f < 10 ^ 9"
  proof -
    have "?f \<le> Nanosecond t" using assms(1) by (metis div_mult_mod_eq le_add_same_cancel1 pos_mod_sign zero_less_power zero_less_numeral)
    then show "?f < 10 ^ 9" using assms(1) by (simp add: valid_time_def)
    show "0 \<le> ?f" using assms(1) by (simp add: valid_time_def pos_imp_zdiv_nonneg_iff)
  qed
  have "sint (word_of_int ?f :: 64 word) = ?f"
    using f by (intro sint_small) simp_all
  then have nf: "num_val (FromInt64 (word_of_int ?f)) = ?f" by (simp only: FromInt64_num_val)
  have u: "- (2 ^ 63) \<le> sint (Unix t)" "sint (Unix t) < 2 ^ 63"
    using sint_range_size [of "Unix t"] by (simp_all add: word_size)
  then have "num_val (Mul (FromInt64 (Unix t)) (Pow10Table ! 9)) = sint (Unix t) * 10 ^ 9"
    by (subst num_val_exact) (simp_all add: FromInt64_num_val Pow10Table_val in_range128_def)
  then have "num_val (Add (Mul (FromInt64 (Unix t)) (Pow10Table ! 9)) (FromInt64 (word_of_int ?f))) = sint (Unix t) * 10 ^ 9 + ?f"
    using u f nf by (subst num_val_exact) (simp_all add: in_range128_def)
  also have "sint (Unix t) * 10 ^ 9 = sint (Unix t) * 10 ^ nat scale * ?p"
    using assms by (simp flip: power_add nat_add_distrib)
  finally show ?thesis by (simp add: scaled_time_def distrib_right)
qed

lemma timestamp_Div:
  assumes "valid_time t" "0 \<le> scale" "scale \<le> 9"
    and "num_val n = scaled_time t scale * 10 ^ nat (9 - scale)"
  shows "\<exists>q. Div n (Pow10Table ! nat (9 - scale)) = Some q \<and>
    num_val q = (if scaled_time t scale = - 1 then 1 else scaled_time t scale)"
proof -
  let ?p = "10 ^ nat (9 - scale) :: int"
  have p: "num_val (Pow10Table ! nat (9 - scale)) = ?p" using assms by (simp add: Pow10Table_val nat_less_iff)
  show ?thesis
  proof (cases "scaled_time t scale = - 1")
    case True
    then show ?thesis using Div_minus [of "Pow10Table ! nat (9 - scale)" n] p assms(4) by (simp add: FromInt64_num_val)
  next
    case False
    have "num_val n \<noteq> - ?p"
    proof
      assume "num_val n = - ?p"
      then have "scaled_time t scale * ?p = - 1 * ?p" using assms(4) by simp
      then have "scaled_time t scale = - 1" by (rule mult_right_cancel [THEN iffD1, rotated]) simp
      with False show False by simp
    qed
    then obtain q where "Div n (Pow10Table ! nat (9 - scale)) = Some q"
      "num_val q = signed_take_bit 127 (num_val n sdiv ?p)"
      using Div_sdiv [of "Pow10Table ! nat (9 - scale)" n] p by auto
    moreover have "num_val n sdiv ?p = scaled_time t scale"
      unfolding assms(4) by (rule sdiv_mult) simp
    moreover have "signed_take_bit 127 (scaled_time t scale) = scaled_time t scale"
      using scaled_time_bounds [OF assms(1-3)] by (intro signed_take_bit_int_eq_self) auto
    ultimately show ?thesis using False by simp
  qed
qed

definition tz_bits :: "go_time \<Rightarrow> int" where
  "tz_bits t = (zone_offset t sdiv 60 + 1440) AND (2 ^ 14 - 1)"

lemma tz_bits_bounds: "0 \<le> tz_bits t" "tz_bits t < 2 ^ 14"
proof -
  have "tz_bits t = take_bit 14 (zone_offset t sdiv 60 + 1440)"
    by (simp add: tz_bits_def take_bit_eq_mask mask_eq_exp_minus_1)
  then show "0 \<le> tz_bits t" "tz_bits t < 2 ^ 14" by (simp_all add: take_bit_eq_mod)
qed

lemma snowflakeTimestampInt_val:
  assumes "valid_time t" "0 \<le> scale" "scale \<le> 9"
  defines "s \<equiv> (if scaled_time t scale = - 1 then 1 else scaled_time t scale)"
  shows "\<exists>n. snowflakeTimestampInt t scale tz = Ok n \<and>
    num_val n = (if tz then s * 2 ^ 14 + tz_bits t else s)"
proof -
  let ?k = "nat (9 - scale)"
  have k: "to_int32 (9 - scale) = 9 - scale" using assms by simp
  have "?k < 10" using assms by auto
  then have p: "sint (pow10TableInt32 ! ?k) = 10 ^ ?k" by (rule pow10TableInt32_nth)
  have n9: "to_int32 (Nanosecond t) = Nanosecond t" using assms(1) by (simp add: valid_time_def)
  have "0 \<le> Nanosecond t div 10 ^ ?k * 10 ^ ?k" "Nanosecond t div 10 ^ ?k * 10 ^ ?k \<le> Nanosecond t"
    using assms(1) by (simp_all add: valid_time_def pos_imp_zdiv_nonneg_iff)
      (metis div_mult_mod_eq le_add_same_cancel1 pos_mod_sign zero_less_power zero_less_numeral)
  then have f0: "to_int32 ((Nanosecond t sdiv 10 ^ ?k) * 10 ^ ?k) = Nanosecond t div 10 ^ ?k * 10 ^ ?k"
    using assms(1) by (subst sdiv_nonneg) (auto simp: valid_time_def)
  define fr where "fr = Nanosecond t div 10 ^ ?k * 10 ^ ?k"
  have f: "to_int32 ((Nanosecond t sdiv 10 ^ ?k) * 10 ^ ?k) = fr" using f0 by (simp only: fr_def)
  from timestamp_Div [OF assms(1-3) timestamp_nanos [OF assms(1-3)]] obtain q where
    q: "Div (Add (Mul (FromInt64 (Unix t)) (Pow10Table ! 9))
        (FromInt64 (word_of_int fr))) (Pow10Table ! ?k) = Some q"
      and v: "num_val q = s" unfolding s_def fr_def by blast
  have e: "snowflakeTimestampInt t scale tz =
      (if tz then Ok (Add (Shl q 14) (FromInt64 (word_of_int (tz_bits t)))) else Ok q)"
    using assms(2,3) by (simp add: snowflakeTimestampInt_def k p n9 f q tz_bits_def Let_def)
  have sb: "\<bar>s\<bar> < 2 ^ 94" using scaled_time_bounds [OF assms(1-3)] by (simp add: s_def)
  have "num_val (Shl q 14) = sint (word_of_int (num_val q * 2 ^ 14) :: 128 word)"
    by (simp add: num_val_def [of "Shl q 14"] Shl_w128 push_bit_eq_mult num_val_word)
  then have sh: "num_val (Shl q 14) = s * 2 ^ 14"
    using sb v by (subst (asm) sint_of_int128) auto
  have "sint (word_of_int (tz_bits t) :: 64 word) = tz_bits t"
    using tz_bits_bounds [of t] by (simp add: sint_sbintrunc' signed_take_bit_int_eq_self)
  then have "num_val (Add (Shl q 14) (FromInt64 (word_of_int (tz_bits t)))) = s * 2 ^ 14 + tz_bits t"
    using sb tz_bits_bounds [of t] sh
    by (subst num_val_exact) (auto simp: FromInt64_num_val in_range128_def)
  then show ?thesis using e v by auto
qed

lemma padBuffer_val:
  assumes "0 < n"
  shows "\<exists>r. padBuffer buf n = Some (buf @ replicate r 0) \<and> 0 < r \<and> int r \<le> n \<and> (int (length buf + r)) mod n = 0"
proof -
  have m: "int (length buf) smod n = int (length buf) mod n"
    using assms by (auto simp: signed_modulo_int_def sdiv_nonneg minus_div_mult_eq_mod)
  let ?r = "nat (n - int (length buf) mod n)"
  have b: "0 \<le> int (length buf) mod n" "int (length buf) mod n < n" using assms by simp_all
  then have "int (length buf + ?r) = n + (int (length buf) - int (length buf) mod n)" by simp
  then have "int (length buf + ?r) mod n = 0" by (simp add: minus_mod_eq_mult_div)
  then show ?thesis using assms b m by (intro exI [of _ ?r]) (simp add: padBuffer_def Let_def)
qed

lemma ep_loop_lookup:
  "length cs = length ss \<Longrightarrow> distinct (map Name cs) \<Longrightarrow>
   \<exists>info'. ep_loop jf cs ss info = Some info' \<and>
     (\<forall>i < length cs. info' (Name (cs ! i)) = Some (column_ep jf (cs ! i) (ss ! i))) \<and>
     (\<forall>n. n \<notin> Name ` set cs \<longrightarrow> info' n = info n)"
proof (induction cs ss arbitrary: info rule: list_induct2)
  case (Cons c cs s ss)
  then obtain info' where i: "ep_loop jf cs ss (info(Name c \<mapsto> column_ep jf c s)) = Some info'"
    "\<forall>i < length cs. info' (Name (cs ! i)) = Some (column_ep jf (cs ! i) (ss ! i))"
    "\<forall>n. n \<notin> Name ` set cs \<longrightarrow> info' n = (info(Name c \<mapsto> column_ep jf c s)) n"
    by fastforce
  have "info' (Name ((c # cs) ! i)) = Some (column_ep jf ((c # cs) ! i) ((s # ss) ! i))" if "i < length (c # cs)" for i
    using i(2,3) Cons.prems that by (cases i) auto
  with i show ?case by auto
qed simp

section \<open>Properties\<close>

text \<open>C31. A timestamp is encoded as its instant in units of ten to minus the scale, with the
  nanoseconds truncated to the scale, and with the zone offset in the low 14 bits when it is
  included; the one exception is the instant one unit before the epoch, which is encoded as one
  unit after it.\<close>

theorem snowflakeTimestampInt_correct:
  assumes "valid_time t" "0 \<le> scale" "scale \<le> 9"
  shows "\<exists>n. snowflakeTimestampInt t scale tz = Ok n \<and>
    (let s = (if scaled_time t scale = - 1 then 1 else scaled_time t scale)
     in num_val n = (if tz then s * 2 ^ 14 + tz_bits t else s))"
  using snowflakeTimestampInt_val [OF assms, of tz] by (simp only: Let_def)

theorem snowflakeTimestampInt_correct_witness:
  "\<exists>n. snowflakeTimestampInt \<lparr>Unix = - 1, Nanosecond = 0, zone_offset = 0\<rparr> 0 False = Ok n \<and> num_val n = 1"
  using snowflakeTimestampInt_correct [of "\<lparr>Unix = - 1, Nanosecond = 0, zone_offset = 0\<rparr>" 0 False]
  by (simp add: valid_time_def scaled_time_def)

text \<open>String statistics of values longer than 32 bytes are truncated to bounds: the minimum to a
  prefix, which is not greater in byte order; the maximum to 32 bytes strictly greater in byte order,
  namely the prefix plus one, or to \<^verbatim>\<open>Z\<close> when all 32 bytes are 0xFF.\<close>

theorem truncateBytes_bounds:
  assumes "32 < length bytes"
  shows "truncateBytesAsHex bytes False = hex_EncodeToString (take 32 bytes) \<and> take 32 bytes \<le> bytes \<and>
    ((\<forall>i<32. bytes ! i = 0xFF) \<and> truncateBytesAsHex bytes True = ''Z'' \<or>
     (\<exists>r. truncateBytesAsHex bytes True = hex_EncodeToString r \<and> length r = 32 \<and> bytes < r \<and>
          be_val r = be_val (take 32 bytes) + 1))"
  using truncate_up [OF assms] take_le_lex [of 32 bytes] assms by (simp add: truncateBytesAsHex_def)

theorem truncateBytes_bounds_witness:
  "\<exists>r. truncateBytesAsHex (replicate 33 7) True = hex_EncodeToString r \<and> length r = 32 \<and> replicate 33 7 < r"
proof -
  have "\<not> (\<forall>i<32. replicate 33 (7::byte) ! i = 0xFF)" by (auto intro!: exI [of _ 0])
  then show ?thesis using truncateBytes_bounds [of "replicate 33 7"] by auto
qed

text \<open>The hand-optimised normalisation of an unquoted column name is the reference expression of
  its comment, upper-casing after replacing escaped spaces, given only that the library's
  upper-casing maps ASCII strings character by character.\<close>

theorem normalizeColumnName_reference:
  assumes "\<And>s. \<forall>c \<in> set s. of_char c < (128::nat) \<Longrightarrow> toUpper s = map ascii_upper s"
    and "hd name \<noteq> CHR ''\"'' \<or> last name \<noteq> CHR ''\"''"
  shows "normalizeColumnName toUpper name = Ok (toUpper (ReplaceAll2 (CHR 0x5C) (CHR '' '') '' '' name))"
  using normalize_unquoted_eq [OF assms(1), of name] assms(2)
  by (auto simp: normalizeColumnName_def upper_fallback_def)

theorem normalizeColumnName_reference_witness:
  "normalizeColumnName (map ascii_upper) ''my_Col'' = Ok ''MY_COL''"
proof -
  have "map ascii_upper (ReplaceAll2 (CHR 0x5C) (CHR '' '') '' '' ''my_Col'') = ''MY_COL''" by code_simp
  then show ?thesis using normalizeColumnName_reference [of "map ascii_upper" "''my_Col''"] by simp
qed

text \<open>Quoting a column name and normalising it again gives the upper-cased name, whatever
  quotation marks it contains.\<close>

theorem quote_normalize_roundtrip:
  "normalizeColumnName toUpper (quoteColumnName toUpper name) = Ok (toUpper name)"
  by (rule normalize_quote)

text \<open>Normalising the name that consists of one quotation mark panics: it is taken for a quoted
  name, and its slice bounds cross.\<close>

theorem normalize_lone_quote_panics: "normalizeColumnName toUpper [CHR ''\"''] = Panic"
  by (rule normalize_single_quote)

text \<open>The file's column properties hold, under each column's name, the statistics of that column;
  no other name has an entry.\<close>

theorem computeColumnEpInfo_correct:
  assumes "length cols = length stats" "distinct (map Name cols)"
  shows "\<exists>info. computeColumnEpInfo jf cols stats = Some info \<and>
    (\<forall>i < length cols. info (Name (cols ! i)) = Some (column_ep jf (cols ! i) (stats ! i))) \<and>
    (\<forall>n. n \<notin> Name ` set cols \<longrightarrow> info n = None)"
  using ep_loop_lookup [OF assms, of jf Map.empty] by (simp add: computeColumnEpInfo_def)

theorem computeColumnEpInfo_correct_witness:
  "\<exists>info. computeColumnEpInfo (\<lambda>_. ''0'') [\<lparr>Name = ''A'', Ordinal = 1\<rparr>] [empty_stats] = Some info \<and>
     info ''A'' = Some (column_ep (\<lambda>_. ''0'') \<lparr>Name = ''A'', Ordinal = 1\<rparr> empty_stats)"
  using computeColumnEpInfo_correct [of "[\<lparr>Name = ''A'', Ordinal = 1\<rparr>]" "[empty_stats]" "\<lambda>_. ''0''"] by auto

end
