(* ===== verification/Snowflake_Convert.thy ===== *)
theory Snowflake_Convert
  imports Snowflake_Compat
begin

text \<open>
  Model of \<^verbatim>\<open>src/internal/impl/snowflake/streaming/userdata_converter.go\<close>: typed column
  buffers and the converters that validate one value, update the statistics and write one cell. A
  Go \<^verbatim>\<open>any\<close> is the datatype \<open>any\<close>. The functions of Bloblang, gabs, \<^verbatim>\<open>strconv\<close> and
  \<^verbatim>\<open>time\<close> the converters call, and the two binary floating-point conversions, are the fields
  of the record \<open>ext\<close>, an argument of the model.
\<close>

section \<open>Values and external functions\<close>

datatype any =
    Nil_val
  | Bool_val bool
  | Int_val int64
  | Uint_val uint64
  | Float32_val "32 word"
  | Float64_val float64
  | String_val string
  | Bytes_val "byte list"
  | Number_val string
  | Array_val "any list"
  | Object_val "(string \<times> any) list"
  | Other_val nat

record ext =
  ValueAsBool :: "any \<Rightarrow> bool option"
  ValueAsInt64 :: "any \<Rightarrow> int64 option"
  ValueAsFloat64 :: "any \<Rightarrow> float64 option"
  ValueAsBytes :: "any \<Rightarrow> byte list option"
  ValueAsTimestamp :: "any \<Rightarrow> go_time option"
  gabs_Bytes :: "any \<Rightarrow> byte list"
  strconv_ParseFloat :: "string \<Rightarrow> float64 option"
  float64_of_int :: "int \<Rightarrow> float64"
  float64_of_32 :: "32 word \<Rightarrow> float64"
  FromFloat32 :: "32 word \<Rightarrow> int \<Rightarrow> int \<Rightarrow> Num option"
  FromFloat64 :: "float64 \<Rightarrow> int \<Rightarrow> int \<Rightarrow> Num option"
  big_ParseFloat :: "string \<Rightarrow> big_float option"
  big_Mul :: "rat \<Rightarrow> rat \<Rightarrow> rat"
  ParseInLocation :: "string \<Rightarrow> string \<Rightarrow> go_time option"
  zero_time :: go_time
  time_Year :: "go_time \<Rightarrow> int"
  utf8_Valid :: "byte list \<Rightarrow> bool"
  strings_ToUpper :: "string \<Rightarrow> string"
  strings_ToLower :: "string \<Rightarrow> string"

definition string_bytes :: "string \<Rightarrow> byte list" where
  "string_bytes = map (\<lambda>c. of_nat (of_char c))"

definition bytes_string :: "byte list \<Rightarrow> string" where
  "bytes_string = map (\<lambda>b. char_of (unat b))"

section \<open>Column buffers\<close>

datatype cell =
    NullCell
  | FixedLenCell "byte list"
  | Int64Cell int64
  | Int32Cell "32 word"
  | BoolCell bool
  | DoubleCell float64
  | BytesCell "byte list"

datatype buffer_kind = DefaultBuffer | Int64Buffer | Int32Buffer

record typedBuffer =
  bkind :: buffer_kind
  scratch :: "byte list"
  written :: "cell list"

definition new_buffer :: "buffer_kind \<Rightarrow> typedBuffer" where
  "new_buffer k = \<lparr>bkind = k, scratch = [], written = []\<rparr>"

definition Reset_buffer :: "typedBuffer \<Rightarrow> typedBuffer" where
  "Reset_buffer b = b\<lparr>scratch := [], written := []\<rparr>"

definition WriteValue :: "typedBuffer \<Rightarrow> cell \<Rightarrow> typedBuffer" where
  "WriteValue b v = b\<lparr>written := written b @ [v]\<rparr>"

definition WriteNull :: "typedBuffer \<Rightarrow> typedBuffer" where
  "WriteNull b = WriteValue b NullCell"

definition WriteInt128 :: "typedBuffer \<Rightarrow> Num \<Rightarrow> typedBuffer" where
  "WriteInt128 b v =
     (case bkind b of
        DefaultBuffer \<Rightarrow>
          (let b = b\<lparr>scratch := AppendBigEndian v (scratch b)\<rparr>
           in WriteValue b (FixedLenCell (drop (length (scratch b) - 16) (scratch b))))
      | Int64Buffer \<Rightarrow> WriteValue b (Int64Cell (ToInt64 v))
      | Int32Buffer \<Rightarrow> WriteValue b (Int32Cell (ucast (ToInt64 v))))"

definition WriteBool :: "typedBuffer \<Rightarrow> bool \<Rightarrow> typedBuffer" where
  "WriteBool b v = WriteValue b (BoolCell v)"

definition WriteFloat64 :: "typedBuffer \<Rightarrow> float64 \<Rightarrow> typedBuffer" where
  "WriteFloat64 b v = WriteValue b (DoubleCell v)"

definition WriteBytes :: "typedBuffer \<Rightarrow> byte list \<Rightarrow> typedBuffer" where
  "WriteBytes b v = WriteValue b (BytesCell v)"

section \<open>Converters\<close>

datatype dataConverter =
    boolConverter bool
  | numberConverter bool int int
  | doubleConverter bool
  | binaryConverter bool int bool
  | jsonConverter bool int
  | jsonArrayConverter bool int
  | jsonObjectConverter bool int
  | timestampConverter bool int int bool bool string
  | timeConverter bool int
  | dateConverter bool

datatype conv_error =
    ErrNullValue
  | ValueError
  | TooLong int int
  | InvalidUTF8
  | NotJSONArray
  | NotJSONObject
  | InvalidTimestampFormat
  | YearOutOfRange int
  | TimestampPrecision Num int

type_synonym conv_result = "(conv_error, statsBuffer \<times> typedBuffer) outcome"

text \<open>The prologue every converter shares.\<close>

definition convert_null :: "bool \<Rightarrow> statsBuffer \<Rightarrow> typedBuffer \<Rightarrow> conv_result" where
  "convert_null nullable stats buf =
     (if \<not> nullable then Err ErrNullValue
      else Ok (stats\<lparr>nullCount := nullCount stats + 1\<rparr>, WriteNull buf))"

definition convert_bool :: "ext \<Rightarrow> bool \<Rightarrow> statsBuffer \<Rightarrow> any \<Rightarrow> typedBuffer \<Rightarrow> conv_result" where
  "convert_bool E nullable stats val buf =
     (if val = Nil_val then convert_null nullable stats buf
      else
        (case ValueAsBool E val of
           None \<Rightarrow> Err ValueError
         | Some v \<Rightarrow>
             (let i = (if v then FromUint64 1 else FromUint64 0)
              in Ok (UpdateIntStats stats i, WriteBool buf v))))"

fun err_map :: "('e, 'a) outcome \<Rightarrow> (conv_error, 'a) outcome" where
  "err_map (Ok x) = Ok x"
| "err_map (Err e) = Err ValueError"
| "err_map Panic = Panic"

fun err_opt :: "'a option \<Rightarrow> (conv_error, 'a) outcome" where
  "err_opt (Some x) = Ok x"
| "err_opt None = Err ValueError"

definition number_value :: "ext \<Rightarrow> int \<Rightarrow> int \<Rightarrow> any \<Rightarrow> (conv_error, Num) outcome" where
  "number_value E scale precision val =
     (case val of
        Int_val t \<Rightarrow> err_map (Rescale (FromInt64 t) precision scale)
      | Uint_val t \<Rightarrow> err_map (Rescale (FromUint64 t) precision scale)
      | Float32_val t \<Rightarrow> err_opt (FromFloat32 E t precision scale)
      | Float64_val t \<Rightarrow> err_opt (FromFloat64 E t precision scale)
      | String_val t \<Rightarrow> err_map (FromString (big_ParseFloat E) (big_Mul E) t precision scale)
      | Bytes_val t \<Rightarrow> err_map (FromString (big_ParseFloat E) (big_Mul E) (bytes_string t) precision scale)
      | Number_val t \<Rightarrow> err_map (FromString (big_ParseFloat E) (big_Mul E) t precision scale)
      | _ \<Rightarrow>
          obind (err_opt (ValueAsInt64 E val)) (\<lambda>i. err_map (Rescale (FromInt64 i) precision scale)))"

definition convert_number :: "ext \<Rightarrow> bool \<Rightarrow> int \<Rightarrow> int \<Rightarrow> statsBuffer \<Rightarrow> any \<Rightarrow> typedBuffer \<Rightarrow> conv_result" where
  "convert_number E nullable scale precision stats val buf =
     (if val = Nil_val then convert_null nullable stats buf
      else
        obind (number_value E scale precision val) (\<lambda>v.
          Ok (UpdateIntStats stats v, WriteInt128 buf v)))"

definition double_value :: "ext \<Rightarrow> any \<Rightarrow> float64 option" where
  "double_value E val =
     (case val of
        Int_val t \<Rightarrow> Some (float64_of_int E (sint t))
      | Uint_val t \<Rightarrow> Some (float64_of_int E (uint t))
      | Float32_val t \<Rightarrow> Some (float64_of_32 E t)
      | Float64_val t \<Rightarrow> Some t
      | String_val t \<Rightarrow> strconv_ParseFloat E t
      | Bytes_val t \<Rightarrow> strconv_ParseFloat E (bytes_string t)
      | Number_val t \<Rightarrow> strconv_ParseFloat E t
      | _ \<Rightarrow> ValueAsFloat64 E val)"

definition convert_double :: "ext \<Rightarrow> bool \<Rightarrow> statsBuffer \<Rightarrow> any \<Rightarrow> typedBuffer \<Rightarrow> conv_result" where
  "convert_double E nullable stats val buf =
     (if val = Nil_val then convert_null nullable stats buf
      else
        (case double_value E val of
           None \<Rightarrow> Err ValueError
         | Some v \<Rightarrow> Ok (UpdateFloat64Stats stats v, WriteFloat64 buf v)))"

definition convert_binary :: "ext \<Rightarrow> bool \<Rightarrow> int \<Rightarrow> bool \<Rightarrow> statsBuffer \<Rightarrow> any \<Rightarrow> typedBuffer \<Rightarrow> conv_result" where
  "convert_binary E nullable maxLength utf8 stats val buf =
     (if val = Nil_val then convert_null nullable stats buf
      else
        (case (case val of
                 String_val t \<Rightarrow> Some (string_bytes t)
               | Bytes_val t \<Rightarrow> Some t
               | _ \<Rightarrow> ValueAsBytes E val) of
           None \<Rightarrow> Err ValueError
         | Some v \<Rightarrow>
             if maxLength < int (length v) then Err (TooLong (int (length v)) maxLength)
             else if utf8 \<and> \<not> utf8_Valid E v then Err InvalidUTF8
             else Ok (UpdateBytesStats stats v, WriteBytes buf v)))"

definition convert_json :: "ext \<Rightarrow> bool \<Rightarrow> int \<Rightarrow> statsBuffer \<Rightarrow> any \<Rightarrow> typedBuffer \<Rightarrow> conv_result" where
  "convert_json E nullable maxLength stats val buf =
     (if val = Nil_val then convert_null nullable stats buf
      else
        (let v = gabs_Bytes E val
         in if maxLength < int (length v) then Err (TooLong (int (length v)) maxLength)
            else Ok (UpdateBytesStats stats v, WriteBytes buf v)))"

definition convert_jsonArray :: "ext \<Rightarrow> bool \<Rightarrow> int \<Rightarrow> statsBuffer \<Rightarrow> any \<Rightarrow> typedBuffer \<Rightarrow> conv_result" where
  "convert_jsonArray E nullable maxLength stats val buf =
     (if val \<noteq> Nil_val \<and> \<not> (case val of Array_val _ \<Rightarrow> True | _ \<Rightarrow> False) then Err NotJSONArray
      else convert_json E nullable maxLength stats val buf)"

definition convert_jsonObject :: "ext \<Rightarrow> bool \<Rightarrow> int \<Rightarrow> statsBuffer \<Rightarrow> any \<Rightarrow> typedBuffer \<Rightarrow> conv_result" where
  "convert_jsonObject E nullable maxLength stats val buf =
     (if val \<noteq> Nil_val \<and> \<not> (case val of Object_val _ \<Rightarrow> True | _ \<Rightarrow> False) then Err NotJSONObject
      else convert_json E nullable maxLength stats val buf)"

text \<open>An empty string leaves the zero time; \<^verbatim>\<open>t.UTC()\<close> keeps the instant and drops
  the offset.\<close>

definition timestamp_value :: "ext \<Rightarrow> string \<Rightarrow> any \<Rightarrow> (conv_error, go_time) outcome" where
  "timestamp_value E timeFormat val =
     (let parse = (\<lambda>s.
            if s \<noteq> '''' then
              (case ParseInLocation E timeFormat s of
                 None \<Rightarrow> Err InvalidTimestampFormat
               | Some t \<Rightarrow> Ok t)
            else Ok (zero_time E))
      in case val of
           Bytes_val v \<Rightarrow> parse (bytes_string v)
         | String_val v \<Rightarrow> parse v
         | _ \<Rightarrow> err_opt (ValueAsTimestamp E val))"

definition in_UTC :: "go_time \<Rightarrow> go_time" where
  "in_UTC t = t\<lparr>zone_offset := 0\<rparr>"

definition convert_timestamp ::
  "ext \<Rightarrow> bool \<Rightarrow> int \<Rightarrow> int \<Rightarrow> bool \<Rightarrow> bool \<Rightarrow> string \<Rightarrow> statsBuffer \<Rightarrow> any \<Rightarrow> typedBuffer \<Rightarrow> conv_result"
where
  "convert_timestamp E nullable scale precision includeTZ trimTZ timeFormat stats val buf =
     (if val = Nil_val then convert_null nullable stats buf
      else
        obind (timestamp_value E timeFormat val) (\<lambda>t.
          let t = (if trimTZ then in_UTC t else t); y = time_Year E t
          in if y < 1 \<or> 9999 < y then Err (YearOutOfRange y)
             else
               obind (err_map (snowflakeTimestampInt t scale includeTZ)) (\<lambda>v.
                 obind (of_opt (FitsInPrecision v precision)) (\<lambda>fits.
                   if \<not> fits then Err (TimestampPrecision v precision)
                   else Ok (UpdateIntStats stats v, WriteInt128 buf v)))))"

definition civil_Hour :: "go_time \<Rightarrow> int" where
  "civil_Hour t = sint (Unix t) mod 86400 div 3600"

definition civil_Minute :: "go_time \<Rightarrow> int" where
  "civil_Minute t = sint (Unix t) mod 3600 div 60"

definition civil_Second :: "go_time \<Rightarrow> int" where
  "civil_Second t = sint (Unix t) mod 60"

definition time_err :: "any \<Rightarrow> conv_error" where
  "time_err val = (case val of String_val _ \<Rightarrow> InvalidTimestampFormat | _ \<Rightarrow> ValueError)"

definition convert_time :: "ext \<Rightarrow> bool \<Rightarrow> int \<Rightarrow> statsBuffer \<Rightarrow> any \<Rightarrow> typedBuffer \<Rightarrow> conv_result" where
  "convert_time E nullable scale stats val buf =
     (if val = Nil_val then convert_null nullable stats buf
      else
        (case ValueAsTimestamp E val of
           None \<Rightarrow> Err (time_err val)
         | Some t \<Rightarrow>
             (let t = in_UTC t;
                  nanos = civil_Hour t * 3600000000000 + civil_Minute t * 60000000000 +
                    civil_Second t * 1000000000 + Nanosecond t;
                  k = to_int32 (9 - scale)
              in if k < 0 \<or> 19 \<le> k then Panic
                 else
                   (let v = FromInt64 (word_of_int (nanos sdiv sint (pow10TableInt64 ! nat k)))
                    in Ok (UpdateIntStats stats v, WriteInt128 buf v)))))"

definition convert_date :: "ext \<Rightarrow> bool \<Rightarrow> statsBuffer \<Rightarrow> any \<Rightarrow> typedBuffer \<Rightarrow> conv_result" where
  "convert_date E nullable stats val buf =
     (if val = Nil_val then convert_null nullable stats buf
      else
        (case ValueAsTimestamp E val of
           None \<Rightarrow> Err (time_err val)
         | Some t \<Rightarrow>
             (let t = in_UTC t; y = time_Year E t
              in if y < - 9999 \<or> 9999 < y then Err (YearOutOfRange y)
                 else
                   (let v = FromInt64 (word_of_int (sint (Unix t) sdiv (24 * 60 * 60)))
                    in Ok (UpdateIntStats stats v, WriteInt128 buf v)))))"

fun ValidateAndConvert :: "ext \<Rightarrow> dataConverter \<Rightarrow> statsBuffer \<Rightarrow> any \<Rightarrow> typedBuffer \<Rightarrow> conv_result" where
  "ValidateAndConvert E (boolConverter n) = convert_bool E n"
| "ValidateAndConvert E (numberConverter n scale prec) = convert_number E n scale prec"
| "ValidateAndConvert E (doubleConverter n) = convert_double E n"
| "ValidateAndConvert E (binaryConverter n len utf8) = convert_binary E n len utf8"
| "ValidateAndConvert E (jsonConverter n len) = convert_json E n len"
| "ValidateAndConvert E (jsonArrayConverter n len) = convert_jsonArray E n len"
| "ValidateAndConvert E (jsonObjectConverter n len) = convert_jsonObject E n len"
| "ValidateAndConvert E (timestampConverter n scale prec tz trim fmt) = convert_timestamp E n scale prec tz trim fmt"
| "ValidateAndConvert E (timeConverter n scale) = convert_time E n scale"
| "ValidateAndConvert E (dateConverter n) = convert_date E n"

section \<open>What a converter writes\<close>

fun agrees :: "stat_event \<Rightarrow> cell \<Rightarrow> bool" where
  "agrees NullVal NullCell = True"
| "agrees (IntVal v) (FixedLenCell b) = (FromBigEndian b = Some v \<and> length b = 16)"
| "agrees (IntVal v) (Int64Cell w) = (fits_bytes 8 (num_val v) \<longrightarrow> sint w = num_val v)"
| "agrees (IntVal v) (Int32Cell w) = (fits_bytes 4 (num_val v) \<longrightarrow> sint w = num_val v)"
| "agrees (IntVal v) (BoolCell b) = (num_val v = (if b then 1 else 0))"
| "agrees (RealVal f) (DoubleCell g) = (f = g)"
| "agrees (BytesVal b) (BytesCell c) = (b = c)"
| "agrees _ _ = False"

fun event_of_kind :: "dataConverter \<Rightarrow> stat_event \<Rightarrow> bool" where
  "event_of_kind c NullVal = True"
| "event_of_kind (doubleConverter _) (RealVal _) = True"
| "event_of_kind (binaryConverter _ _ _) (BytesVal _) = True"
| "event_of_kind (jsonConverter _ _) (BytesVal _) = True"
| "event_of_kind (jsonArrayConverter _ _) (BytesVal _) = True"
| "event_of_kind (jsonObjectConverter _ _) (BytesVal _) = True"
| "event_of_kind (boolConverter _) (IntVal _) = True"
| "event_of_kind (numberConverter _ _ _) (IntVal _) = True"
| "event_of_kind (timestampConverter _ _ _ _ _ _) (IntVal _) = True"
| "event_of_kind (timeConverter _ _) (IntVal _) = True"
| "event_of_kind (dateConverter _) (IntVal _) = True"
| "event_of_kind _ _ = False"

lemma num_val_lo: "word_of_int (num_val n) = lo n"
proof -
  have "word_of_int (num_val n) = (ucast (w128 n) :: 64 word)"
    by (rule bit_word_eqI) (simp add: bit_ucast_iff num_val_def bit_signed_iff min_def)
  also have "\<dots> = lo n" by (rule bit_word_eqI) (simp add: bit_ucast_iff bit_w128)
  finally show ?thesis .
qed

lemma fits_cells:
  "fits_bytes 8 (num_val n) \<Longrightarrow> sint (ToInt64 n) = num_val n"
  "fits_bytes 4 (num_val n) \<Longrightarrow> sint (ucast (ToInt64 n) :: 32 word) = num_val n"
proof -
  assume "fits_bytes 8 (num_val n)"
  then show "sint (ToInt64 n) = num_val n"
    by (simp add: ToInt64_def fits_bytes_def sint_sbintrunc' signed_take_bit_int_eq_self flip: num_val_lo)
next
  assume "fits_bytes 4 (num_val n)"
  moreover have "(ucast (lo n) :: 32 word) = word_of_int (num_val n)"
    unfolding num_val_lo [symmetric] by (rule bit_word_eqI) (simp add: bit_ucast_iff bit_of_int_iff)
  ultimately show "sint (ucast (ToInt64 n) :: 32 word) = num_val n"
    by (simp add: ToInt64_def fits_bytes_def sint_sbintrunc' signed_take_bit_int_eq_self)
qed

lemma WriteInt128_cell:
  "\<exists>cell. written (WriteInt128 b v) = written b @ [cell] \<and> agrees (IntVal v) cell \<and>
     bkind (WriteInt128 b v) = bkind b"
  using FromBigEndian_ToBigEndian [of v "[]"]
  by (cases "bkind b")
    (auto simp: WriteInt128_def WriteValue_def Let_def AppendBigEndian_eq ToBigEndian_def fits_cells)

definition writes_one :: "dataConverter \<Rightarrow> statsBuffer \<Rightarrow> typedBuffer \<Rightarrow> statsBuffer \<Rightarrow> typedBuffer \<Rightarrow> bool" where
  "writes_one c s b s' b' \<longleftrightarrow>
     (\<exists>ev cell. s' = apply_event s ev \<and> written b' = written b @ [cell] \<and> bkind b' = bkind b \<and>
        agrees ev cell \<and> event_of_kind c ev)"

lemma writes_null: "convert_null n s b = Ok (s', b') \<Longrightarrow> writes_one c s b s' b'"
  by (auto simp: convert_null_def writes_one_def WriteNull_def WriteValue_def
      intro!: exI [of _ NullVal] exI [of _ NullCell] split: if_splits)

lemma writes_int:
  "event_of_kind c (IntVal v) \<Longrightarrow> writes_one c s b (UpdateIntStats s v) (WriteInt128 b v)"
  using WriteInt128_cell [of b v] unfolding writes_one_def
  by (metis apply_event.simps(1))

lemma writes_bytes:
  "event_of_kind c (BytesVal v) \<Longrightarrow> writes_one c s b (UpdateBytesStats s v) (WriteBytes b v)"
  unfolding writes_one_def
  by (intro exI [of _ "BytesVal v"] exI [of _ "BytesCell v"]) (simp add: WriteBytes_def WriteValue_def)

lemma writes_real:
  "event_of_kind c (RealVal v) \<Longrightarrow> writes_one c s b (UpdateFloat64Stats s v) (WriteFloat64 b v)"
  unfolding writes_one_def
  by (intro exI [of _ "RealVal v"] exI [of _ "DoubleCell v"]) (simp add: WriteFloat64_def WriteValue_def)

lemma writes_bool:
  "event_of_kind c (IntVal (FromUint64 0)) \<Longrightarrow>
   writes_one c s b (UpdateIntStats s (if v then FromUint64 1 else FromUint64 0)) (WriteBool b v)"
  unfolding writes_one_def
  by (intro exI [of _ "IntVal (if v then FromUint64 1 else FromUint64 0)"] exI [of _ "BoolCell v"])
    (cases c; simp add: WriteBool_def WriteValue_def FromUint64_num_val)

lemma convert_json_writes:
  "convert_json E n len s v b = Ok (s', b') \<Longrightarrow> event_of_kind c (BytesVal (gabs_Bytes E v)) \<Longrightarrow> writes_one c s b s' b'"
  by (auto simp: convert_json_def Let_def intro: writes_null writes_bytes split: if_splits)

lemma ValidateAndConvert_writes:
  "ValidateAndConvert E c s v b = Ok (s', b') \<Longrightarrow> writes_one c s b s' b'"
proof (cases c)
  case (boolConverter n)
  then show "ValidateAndConvert E c s v b = Ok (s', b') \<Longrightarrow> ?thesis"
    using writes_bool [of c s b True] writes_bool [of c s b False]
    by (auto simp: convert_bool_def Let_def intro: writes_null split: if_splits option.splits)
next
  case (numberConverter n sc p)
  then show "ValidateAndConvert E c s v b = Ok (s', b') \<Longrightarrow> ?thesis"
    by (auto simp: convert_number_def intro: writes_null writes_int split: if_splits)
next
  case (doubleConverter n)
  then show "ValidateAndConvert E c s v b = Ok (s', b') \<Longrightarrow> ?thesis"
    by (auto simp: convert_double_def intro: writes_null writes_real split: if_splits option.splits)
next
  case (binaryConverter n l u)
  then show "ValidateAndConvert E c s v b = Ok (s', b') \<Longrightarrow> ?thesis"
    by (auto simp: convert_binary_def intro: writes_null writes_bytes split: if_splits option.splits)
next
  case (jsonConverter n l)
  then show "ValidateAndConvert E c s v b = Ok (s', b') \<Longrightarrow> ?thesis"
    by (auto intro: convert_json_writes)
next
  case (jsonArrayConverter n l)
  then show "ValidateAndConvert E c s v b = Ok (s', b') \<Longrightarrow> ?thesis"
    by (auto simp: convert_jsonArray_def intro: convert_json_writes split: if_splits)
next
  case (jsonObjectConverter n l)
  then show "ValidateAndConvert E c s v b = Ok (s', b') \<Longrightarrow> ?thesis"
    by (auto simp: convert_jsonObject_def intro: convert_json_writes split: if_splits)
next
  case (timestampConverter n sc p tz trim fmt)
  then show "ValidateAndConvert E c s v b = Ok (s', b') \<Longrightarrow> ?thesis"
    by (auto simp: convert_timestamp_def Let_def intro: writes_null writes_int split: if_splits)
next
  case (timeConverter n sc)
  then show "ValidateAndConvert E c s v b = Ok (s', b') \<Longrightarrow> ?thesis"
    by (auto simp: convert_time_def Let_def intro: writes_null writes_int split: if_splits option.splits)
next
  case (dateConverter n)
  then show "ValidateAndConvert E c s v b = Ok (s', b') \<Longrightarrow> ?thesis"
    by (auto simp: convert_date_def Let_def intro: writes_null writes_int split: if_splits option.splits)
qed

subsection \<open>Numbers fit their column\<close>

lemma err_map_eq_Ok [simp]: "err_map m = Ok x \<longleftrightarrow> m = Ok x"
  by (cases m) auto

lemma err_opt_eq_Ok [simp]: "err_opt m = Ok x \<longleftrightarrow> m = Some x"
  by (cases m) auto

lemma Rescale_bound:
  "0 \<le> s \<Longrightarrow> s \<le> p \<Longrightarrow> p \<le> 38 \<Longrightarrow> Rescale n p s = Ok m \<Longrightarrow> \<bar>num_val m\<bar> < 10 ^ nat p"
  using Rescale_val [of s p n] by (auto split: if_splits)

lemma fromStringFast_bound:
  assumes "0 \<le> s" "s \<le> p" "p \<le> 38" "length t < 2 ^ 31" "fromStringFast t p s = Ok m"
  shows "\<bar>num_val m\<bar> < 10 ^ nat p"
proof -
  from fromStringFast_shape [OF assms(5,4)] obtain sign ip fp where
    "t = decimal_string sign ip fp" "sign \<in> {'''', ''-'', ''+''}" "list_all is_digit ip"
    "list_all is_digit (frac_digits fp)" "ip \<noteq> [] \<or> fp \<noteq> None" "length t \<le> 38" by blast
  with fromStringFast_val [of sign ip fp s p] assms
  have "let r = rounded (dec_acc 0 (ip @ frac_digits fp)) (length (frac_digits fp)) (nat s)
    in r < 10 ^ nat p \<and> num_val m = (if sign = ''-'' then - int r else int r)"
    by (auto simp: Let_def split: if_splits)
  then obtain r where r: "r < 10 ^ nat p" "num_val m = (if sign = ''-'' then - int r else int r)"
    by (auto simp: Let_def)
  then have "int r < int (10 ^ nat p)" by (simp only: of_nat_less_iff)
  with r(2) show ?thesis by simp
qed

lemma fromStringSlow_bound:
  "0 \<le> p \<Longrightarrow> p \<le> 38 \<Longrightarrow> fromStringSlow pf mul t p s = Ok m \<Longrightarrow> \<bar>num_val m\<bar> < 10 ^ nat p"
  by (auto simp: fromStringSlow_def FitsInPrecision_val split: option.splits if_splits)

lemma FromString_bound:
  "0 \<le> s \<Longrightarrow> s \<le> p \<Longrightarrow> p \<le> 38 \<Longrightarrow> length t < 2 ^ 31 \<Longrightarrow> FromString pf mul t p s = Ok m \<Longrightarrow> \<bar>num_val m\<bar> < 10 ^ nat p"
  using fromStringFast_bound [of s p t m] fromStringSlow_bound [of p pf mul t s m]
  by (auto simp: FromString_def split: outcome.splits)

fun text_length :: "any \<Rightarrow> nat" where
  "text_length (String_val t) = length t"
| "text_length (Bytes_val t) = length t"
| "text_length (Number_val t) = length t"
| "text_length _ = 0"

fun is_float :: "any \<Rightarrow> bool" where
  "is_float (Float32_val _) = True"
| "is_float (Float64_val _) = True"
| "is_float _ = False"

lemma length_bytes_string [simp]: "length (bytes_string b) = length b"
  by (simp add: bytes_string_def)

lemma number_value_bound:
  assumes "0 \<le> s" "s \<le> p" "p \<le> 38" "text_length v < 2 ^ 31" "\<not> is_float v"
    and "number_value E s p v = Ok m"
  shows "\<bar>num_val m\<bar> < 10 ^ nat p"
  using assms(4-6) Rescale_bound [OF assms(1-3)] FromString_bound [OF assms(1-3)]
    FromString_bound [OF assms(1-3), of "bytes_string b" for b]
  by (cases v) (auto simp: number_value_def)

text \<open>A time of day and a date as the converters encode them.\<close>

lemma time_of_day:
  "civil_Hour t * 3600000000000 + civil_Minute t * 60000000000 + civil_Second t * 1000000000 =
   (sint (Unix t) mod 86400) * 1000000000"
proof -
  define u where "u = sint (Unix t)"
  have m: "u mod 3600 = (u mod 86400) mod 3600" "u mod 60 = (u mod 3600) mod 60"
    by (simp_all add: mod_mod_cancel)
  have "(u mod 86400) div 3600 * 3600 + (u mod 86400) mod 3600 = u mod 86400"
    "(u mod 3600) div 60 * 60 + (u mod 3600) mod 60 = u mod 3600"
    by (rule div_mult_mod_eq)+
  then have "u mod 86400 = (u mod 86400 div 3600) * 3600 + (u mod 3600 div 60) * 60 + u mod 60"
    unfolding m(1) [symmetric] m(2) [symmetric] by linarith
  then show ?thesis by (simp add: civil_Hour_def civil_Minute_def civil_Second_def flip: u_def)
qed

section \<open>Properties\<close>





end
