(* ===== verification/Snowflake_Schema.thy ===== *)
theory Snowflake_Schema
  imports Snowflake_Convert
begin

text \<open>
  Model of \<^verbatim>\<open>src/internal/impl/snowflake/streaming/schema.go\<close> (column metadata to
  parquet nodes, converters and buffers) and of \<^verbatim>\<open>parquet.go\<close> (messages to rows, rows to
  column buffers and statistics, the row count check before an upload). The parquet library is a
  parameter: a node is the tree of constructor calls the code makes, and a column writer is the list
  of cells it was given.
\<close>

section \<open>Schema\<close>

record columnMetadata =
  cName :: string
  cOrdinal :: int
  LogicalType :: string
  PhysicalType :: string
  Precision :: "int option"
  Scale :: "int option"
  ByteLength :: "int option"
  Nullable :: bool

datatype ptype = Int32Type | Int64Type | FixedLenByteArrayType int | ByteArrayType | BooleanType | DoubleType

datatype node =
    Leaf ptype
  | Decimal int int ptype
  | StringNode
  | OptionalNode node
  | FieldID node int
  | PlainEncoded node

record dataTransformer =
  converter :: dataConverter
  tcolumn :: columnMetadata
  bufferFactory :: buffer_kind
  tname :: string

datatype schema_error = UnsupportedPhysical string | UnsupportedLogical string

fun maxPrecisionForByteWidth :: "int \<Rightarrow> int" where
  "maxPrecisionForByteWidth byteWidth =
     (if byteWidth = 1 then 3
      else if byteWidth = 2 then 5
      else if byteWidth = 4 then 9
      else if byteWidth = 8 then 18
      else 38)"

definition fixed_physical :: "string \<Rightarrow> (ptype \<times> int \<times> buffer_kind) option" where
  "fixed_physical upper =
     (if upper = ''SB1'' then Some (Int32Type, maxPrecisionForByteWidth 1, Int32Buffer)
      else if upper = ''SB2'' then Some (Int32Type, maxPrecisionForByteWidth 2, Int32Buffer)
      else if upper = ''SB4'' then Some (Int32Type, maxPrecisionForByteWidth 4, Int32Buffer)
      else if upper = ''SB8'' then Some (Int64Type, maxPrecisionForByteWidth 8, Int64Buffer)
      else None)"

definition convertFixedType :: "ext \<Rightarrow> columnMetadata \<Rightarrow>
    (schema_error, node \<times> dataConverter \<times> buffer_kind) outcome" where
  "convertFixedType E column =
     (let scale = (case Scale column of None \<Rightarrow> 0 | Some s \<Rightarrow> s);
          precision = (case Precision column of None \<Rightarrow> 0 | Some p \<Rightarrow> p);
          isDecimal = (Scale column \<noteq> None \<and> Precision column \<noteq> None)
      in if (Scale column \<noteq> None \<and> the (Scale column) \<noteq> 0) \<or>
            strings_ToUpper E (PhysicalType column) = ''SB16'' then
           (let c = numberConverter (Nullable column) scale precision;
                t = FixedLenByteArrayType 16
            in Ok (if isDecimal then Decimal scale precision t else Leaf t, c, DefaultBuffer))
         else
           (case fixed_physical (strings_ToUpper E (PhysicalType column)) of
              None \<Rightarrow> Err (UnsupportedPhysical (PhysicalType column))
            | Some (ptype, defaultPrecision, factory) \<Rightarrow>
                (let validationPrecision =
                       (if Precision column = None then defaultPrecision else precision);
                     c = numberConverter (Nullable column) scale validationPrecision
                 in Ok (if isDecimal then Decimal scale precision ptype else Leaf ptype, c, factory))))"

definition MiByte :: int where
  "MiByte = 1048576"

definition maxJSONSize :: int where
  "maxJSONSize = 16 * MiByte - 64"

fun physicalTypeOrdinal_upper :: "string \<Rightarrow> int" where
  "physicalTypeOrdinal_upper u =
     (if u = ''ROWINDEX'' then 9
      else if u = ''DOUBLE'' then 7
      else if u = ''SB1'' then 1
      else if u = ''SB2'' then 2
      else if u = ''SB4'' then 3
      else if u = ''SB8'' then 4
      else if u = ''SB16'' then 5
      else if u = ''LOB'' then 8
      else if u = ''ROW'' then 10
      else - 1)"

definition physicalTypeOrdinal :: "ext \<Rightarrow> string \<Rightarrow> int" where
  "physicalTypeOrdinal E str = physicalTypeOrdinal_upper (strings_ToUpper E str)"

fun logicalTypeOrdinal_upper :: "string \<Rightarrow> int" where
  "logicalTypeOrdinal_upper u =
     (if u = ''BOOLEAN'' then 1
      else if u = ''NULL'' then 15
      else if u = ''REAL'' then 8
      else if u = ''FIXED'' then 2
      else if u = ''TEXT'' then 9
      else if u = ''BINARY'' then 10
      else if u = ''DATE'' then 7
      else if u = ''TIME'' then 6
      else if u = ''TIMESTAMP_LTZ'' then 3
      else if u = ''TIMESTAMP_NTZ'' then 4
      else if u = ''TIMESTAMP_TZ'' then 5
      else if u = ''ARRAY'' then 13
      else if u = ''OBJECT'' then 12
      else if u = ''VARIANT'' then 11
      else - 1)"

definition logicalTypeOrdinal :: "ext \<Rightarrow> string \<Rightarrow> int" where
  "logicalTypeOrdinal E str = logicalTypeOrdinal_upper (strings_ToUpper E str)"

text \<open>The switch over the logical type: node, converter, buffer, and whether the column is
  semi-structured (an extra metadata entry).\<close>

definition column_type :: "ext \<Rightarrow> string \<Rightarrow> columnMetadata \<Rightarrow>
    (schema_error, node \<times> dataConverter \<times> buffer_kind \<times> bool) outcome" where
  "column_type E timestampFormat column =
     (let logicalType = strings_ToLower E (LogicalType column); nl = Nullable column;
          len = (\<lambda>d. min (case ByteLength column of None \<Rightarrow> d | Some l \<Rightarrow> l) (16 * MiByte))
      in if logicalType = ''fixed'' then
           obind (convertFixedType E column) (\<lambda>(n, c, b). Ok (n, c, b, False))
         else if logicalType = ''array'' then
           Ok (StringNode, jsonArrayConverter nl maxJSONSize, DefaultBuffer, True)
         else if logicalType = ''object'' then
           Ok (StringNode, jsonObjectConverter nl maxJSONSize, DefaultBuffer, True)
         else if logicalType = ''variant'' then
           Ok (StringNode, jsonConverter nl maxJSONSize, DefaultBuffer, True)
         else if logicalType = ''any'' \<or> logicalType = ''text'' \<or> logicalType = ''char'' then
           Ok (StringNode, binaryConverter nl (len (16 * MiByte)) True, DefaultBuffer, False)
         else if logicalType = ''binary'' then
           Ok (Leaf ByteArrayType, binaryConverter nl (len (8 * MiByte)) False, DefaultBuffer, False)
         else if logicalType = ''boolean'' then
           Ok (Leaf BooleanType, boolConverter nl, DefaultBuffer, False)
         else if logicalType = ''real'' then
           Ok (Leaf DoubleType, doubleConverter nl, DefaultBuffer, False)
         else if logicalType = ''timestamp_tz'' \<or> logicalType = ''timestamp_ltz'' \<or>
             logicalType = ''timestamp_ntz'' then
           (let (pt, precision, b) =
                  (if PhysicalType column = ''SB8''
                   then (Int64Type, maxPrecisionForByteWidth 8, Int64Buffer)
                   else (FixedLenByteArrayType 16, maxPrecisionForByteWidth 16, DefaultBuffer));
                scale = (case Scale column of None \<Rightarrow> 0 | Some s \<Rightarrow> s)
            in Ok (Decimal scale precision pt,
                   timestampConverter nl scale precision (logicalType = ''timestamp_tz'')
                     (logicalType = ''timestamp_ntz'') timestampFormat, b, False))
         else if logicalType = ''time'' then
           (let (t, precision, b) =
                  (if PhysicalType column = ''SB8'' then (Int64Type, 18, Int64Buffer)
                   else (Int32Type, 9, Int32Buffer));
                scale = (case Scale column of None \<Rightarrow> 9 | Some s \<Rightarrow> s)
            in Ok (Decimal scale precision t, timeConverter nl scale, b, False))
         else if logicalType = ''date'' then
           Ok (Leaf Int32Type, dateConverter nl, Int32Buffer, False)
         else Err (UnsupportedLogical (LogicalType column)))"

record schema_state =
  groupNode :: "string \<rightharpoonup> node"
  transformers :: "dataTransformer list"
  typeMetadata :: "string \<rightharpoonup> string"

definition schema_column :: "ext \<Rightarrow> string \<Rightarrow> columnMetadata \<Rightarrow> schema_state \<Rightarrow>
    (schema_error, schema_state) outcome" where
  "schema_column E timestampFormat column st =
     obind (column_type E timestampFormat column) (\<lambda>(n, c, b, semi).
       let id = cOrdinal column;
           meta = (if semi then (typeMetadata st)(dec_int id @ '':obj_enc'' \<mapsto> ''1'') else typeMetadata st);
           n = (if Nullable column then OptionalNode n else n);
           n = PlainEncoded (FieldID n id);
           meta = meta(dec_int id \<mapsto> dec_int (logicalTypeOrdinal E (LogicalType column)) @ '','' @
             dec_int (physicalTypeOrdinal E (PhysicalType column)))
       in case normalizeColumnName (strings_ToUpper E) (cName column) of
            Panic \<Rightarrow> Panic
          | Err _ \<Rightarrow> Panic
          | Ok name \<Rightarrow>
              Ok \<lparr>groupNode = (groupNode st)(name \<mapsto> n),
                  transformers = transformers st @
                    [\<lparr>converter = c, tcolumn = column, bufferFactory = b, tname = name\<rparr>],
                  typeMetadata = meta\<rparr>)"

fun schema_loop :: "ext \<Rightarrow> string \<Rightarrow> columnMetadata list \<Rightarrow> schema_state \<Rightarrow>
    (schema_error, schema_state) outcome" where
  "schema_loop E fmt [] st = Ok st"
| "schema_loop E fmt (c # cs) st = obind (schema_column E fmt c st) (schema_loop E fmt cs)"

definition constructParquetSchema :: "ext \<Rightarrow> string \<Rightarrow> columnMetadata list \<Rightarrow>
    (schema_error, schema_state) outcome" where
  "constructParquetSchema E timestampFormat columns =
     schema_loop E timestampFormat (sort_key cOrdinal columns)
       \<lparr>groupNode = Map.empty, transformers = [], typeMetadata = Map.empty\<rparr>"

section \<open>Messages to rows\<close>

datatype SchemaMode = SchemaModeIgnoreExtra | SchemaModeStrict | SchemaModeStrictWithNulls

datatype row_error =
    StructuredError
  | ExpectedObject
  | ExpectedArray
  | MissingColumns "(string \<times> any) list"
  | NonNullColumn string
  | InvalidData string conv_error
  | FlushError

definition reports_missing :: "SchemaMode \<Rightarrow> any \<Rightarrow> bool" where
  "reports_missing mode v \<longleftrightarrow>
     mode = SchemaModeStrict \<and> v \<noteq> Nil_val \<or> mode = SchemaModeStrictWithNulls"

text \<open>The entries of the object in the order the Go map iterates them.\<close>

fun object_loop :: "ext \<Rightarrow> SchemaMode \<Rightarrow> (string \<rightharpoonup> nat) \<Rightarrow> (string \<times> any) list \<Rightarrow> any list \<Rightarrow>
    (string \<times> any) list \<Rightarrow> (row_error, any list) outcome" where
  "object_loop E mode pos [] out missing =
     (if missing \<noteq> [] then Err (MissingColumns missing) else Ok out)"
| "object_loop E mode pos ((k, v) # kvs) out missing =
     (case normalizeColumnName (strings_ToUpper E) k of
        Panic \<Rightarrow> Panic
      | Err _ \<Rightarrow> Panic
      | Ok name \<Rightarrow>
          (case pos name of
             None \<Rightarrow>
               object_loop E mode pos kvs out
                 (if reports_missing mode v then missing @ [(k, v)] else missing)
           | Some idx \<Rightarrow>
               if length out \<le> idx then Panic else object_loop E mode pos kvs (out[idx := v]) missing))"

definition objectMessageToRow :: "ext \<Rightarrow> SchemaMode \<Rightarrow> (string \<rightharpoonup> nat) \<Rightarrow> any option \<Rightarrow> any list \<Rightarrow>
    (row_error, any list) outcome" where
  "objectMessageToRow E mode pos msg out =
     (case msg of
        None \<Rightarrow> Err StructuredError
      | Some (Object_val row) \<Rightarrow> object_loop E mode pos row out []
      | Some _ \<Rightarrow> Err ExpectedObject)"

fun extra_columns :: "SchemaMode \<Rightarrow> nat \<Rightarrow> any list \<Rightarrow> (string \<times> any) list" where
  "extra_columns mode i [] = []"
| "extra_columns mode i (v # vs) =
     (if reports_missing mode v then [(''COLUMN_'' @ dec_nat i, v)] else []) @ extra_columns mode (Suc i) vs"

definition arrayMessageToRow :: "SchemaMode \<Rightarrow> any option \<Rightarrow> any list \<Rightarrow> (row_error, any list) outcome" where
  "arrayMessageToRow mode msg out =
     (case msg of
        None \<Rightarrow> Err StructuredError
      | Some (Array_val row) \<Rightarrow>
          (let filled = take (length out) row @ drop (length row) out
           in if length out < length row \<and> mode \<noteq> SchemaModeIgnoreExtra then
                (let missing = extra_columns mode (length out) (drop (length out) row)
                 in if missing \<noteq> [] then Err (MissingColumns missing) else Ok filled)
              else Ok filled)
      | Some _ \<Rightarrow> Err ExpectedArray)"

section \<open>Rows to column buffers\<close>

type_synonym column_state = "statsBuffer \<times> typedBuffer"

fun convert_row :: "ext \<Rightarrow> dataTransformer list \<Rightarrow> any list \<Rightarrow> column_state list \<Rightarrow>
    (row_error, column_state list) outcome" where
  "convert_row E ts [] cols = Ok cols"
| "convert_row E (t # ts) (v # vs) ((s, b) # cols) =
     (case ValidateAndConvert E (converter t) s v b of
        Panic \<Rightarrow> Panic
      | Err e \<Rightarrow>
          (if e = ErrNullValue then Err (NonNullColumn (cName (tcolumn t)))
           else Err (InvalidData (tname t) e))
      | Ok (s', b') \<Rightarrow> obind (convert_row E ts vs cols) (\<lambda>cols'. Ok ((s', b') # cols')))"
| "convert_row E _ (v # vs) _ = Panic"

fun convert_batch :: "ext \<Rightarrow> dataTransformer list \<Rightarrow> (any option \<Rightarrow> any list \<Rightarrow> (row_error, any list) outcome) \<Rightarrow>
    any option list \<Rightarrow> column_state list \<Rightarrow> (row_error, column_state list) outcome" where
  "convert_batch E ts toRow [] cols = Ok cols"
| "convert_batch E ts toRow (msg # batch) cols =
     obind (toRow msg (replicate (length cols) Nil_val)) (\<lambda>row.
       obind (convert_row E ts row cols) (convert_batch E ts toRow batch))"

text \<open>The width of a row is the number of fields of the schema, one per distinct column name; a
  slice of that length is indexed by the position of each transformer.\<close>

definition row_width :: "dataTransformer list \<Rightarrow> nat" where
  "row_width ts = length (remdups (map tname ts))"

definition positions :: "dataTransformer list \<Rightarrow> (string \<rightharpoonup> nat)" where
  "positions ts = foldl (\<lambda>m i. m(tname (ts ! i) \<mapsto> i)) Map.empty [0..<length ts]"

definition start_columns :: "dataTransformer list \<Rightarrow> column_state list" where
  "start_columns ts = map (\<lambda>t. (empty_stats, Reset_buffer (new_buffer (bufferFactory t)))) ts"

definition write_rows :: "ext \<Rightarrow> dataTransformer list \<Rightarrow> (any option \<Rightarrow> any list \<Rightarrow> (row_error, any list) outcome) \<Rightarrow>
    any option list \<Rightarrow> bool \<Rightarrow> (row_error, column_state list) outcome" where
  "write_rows E ts toRow batch flushed =
     (if row_width ts < length ts then Panic
      else
        obind (convert_batch E ts toRow batch (start_columns ts)) (\<lambda>cols.
          if flushed then Ok cols else Err FlushError))"

definition writeRowGroupFromObject :: "ext \<Rightarrow> dataTransformer list \<Rightarrow> SchemaMode \<Rightarrow> any option list \<Rightarrow> bool \<Rightarrow>
    (row_error, column_state list) outcome" where
  "writeRowGroupFromObject E ts mode batch flushed =
     write_rows E ts (objectMessageToRow E mode (positions ts)) batch flushed"

definition writeRowGroupFromArray :: "ext \<Rightarrow> dataTransformer list \<Rightarrow> SchemaMode \<Rightarrow> any option list \<Rightarrow> bool \<Rightarrow>
    (row_error, column_state list) outcome" where
  "writeRowGroupFromArray E ts mode batch flushed =
     write_rows E ts (arrayMessageToRow mode) batch flushed"

section \<open>The file footer\<close>

record row_group_meta =
  rgNumRows :: int64
  rgTotalByteSize :: int64
  rgNumValues :: "int64 list"

record file_meta =
  fNumRows :: int64
  fRowGroups :: "row_group_meta list"

datatype count_error = TotalRows | GroupCount | GroupRows nat | ColumnValues nat

fun verify_groups :: "nat \<Rightarrow> row_group_meta list \<Rightarrow> int64 list \<Rightarrow> count_error option" where
  "verify_groups i (rg # rgs) (n # ns) =
     (if rgNumRows rg \<noteq> n then Some (GroupRows i)
      else if list_ex (\<lambda>c. c \<noteq> rgNumRows rg) (rgNumValues rg) then Some (ColumnValues i)
      else verify_groups (Suc i) rgs ns)"
| "verify_groups i _ _ = None"

definition verifyRowCounts :: "int64 list \<Rightarrow> file_meta \<Rightarrow> count_error option" where
  "verifyRowCounts expectedRowsPerGroup md =
     (let expectedTotal = foldl (+) 0 expectedRowsPerGroup
      in if fNumRows md \<noteq> expectedTotal then Some TotalRows
         else if length (fRowGroups md) \<noteq> length expectedRowsPerGroup then Some GroupCount
         else verify_groups 0 (fRowGroups md) expectedRowsPerGroup)"

definition totalUncompressedSize :: "file_meta \<Rightarrow> 32 word" where
  "totalUncompressedSize md = ucast (foldl (\<lambda>size rg. size + rgTotalByteSize rg) 0 (fRowGroups md))"

section \<open>Lemmas\<close>

text \<open>\<open>col_events c evs (s, b)\<close>: the column holds one cell per event, and the statistics are
  those of the values in the cells.\<close>

definition col_events :: "dataConverter \<Rightarrow> stat_event list \<Rightarrow> column_state \<Rightarrow> bool" where
  "col_events c evs col \<longleftrightarrow>
     fst col = collect_stats evs \<and> list_all2 agrees evs (written (snd col)) \<and> list_all (event_of_kind c) evs"

lemma collect_snoc: "apply_event (collect_stats evs) ev = collect_stats (evs @ [ev])"
  by (simp add: collect_stats_def)

lemma col_events_step:
  "col_events c evs (s, b) \<Longrightarrow> writes_one c s b s' b' \<Longrightarrow>
   \<exists>ev. col_events c (evs @ [ev]) (s', b')"
  unfolding writes_one_def col_events_def
  by (auto simp: collect_snoc intro!: list_all2_appendI)

lemma convert_row_events:
  assumes "convert_row E ts row cols = Ok cols'" "length row = length cols" "length ts = length cols"
    and "list_all2 (\<lambda>t (evs, col). col_events (converter t) evs col) ts (zip es cols)" "length es = length cols"
  shows "\<exists>es'. length es' = length cols' \<and> length cols' = length cols \<and>
    list_all2 (\<lambda>t (evs, col). col_events (converter t) evs col) ts (zip es' cols') \<and>
    list_all2 (\<lambda>e e'. length e' = Suc (length e)) es es'"
  using assms
proof (induction E ts row cols arbitrary: cols' es rule: convert_row.induct)
  case (2 E t ts v vs s b cols)
  obtain evs es0 where es: "es = evs # es0" using "2.prems"(5) by (cases es) auto
  from "2.prems"(1) obtain s' b' cols0 where c: "ValidateAndConvert E (converter t) s v b = Ok (s', b')"
    "convert_row E ts vs cols = Ok cols0" "cols' = (s', b') # cols0"
    by (auto split: outcome.splits if_splits)
  have "\<exists>es'. length es' = length cols0 \<and> length cols0 = length cols \<and>
    list_all2 (\<lambda>t (evs, col). col_events (converter t) evs col) ts (zip es' cols0) \<and>
    list_all2 (\<lambda>e e'. length e' = Suc (length e)) es0 es'"
    using "2.prems" es c by (intro "2.IH" [OF c(1) refl]) auto
  then obtain es' where e: "length es' = length cols0" "length cols0 = length cols"
    "list_all2 (\<lambda>t (evs, col). col_events (converter t) evs col) ts (zip es' cols0)"
    "list_all2 (\<lambda>e e'. length e' = Suc (length e)) es0 es'" by blast
  have "col_events (converter t) evs (s, b)" using "2.prems"(4) es by simp
  from col_events_step [OF this ValidateAndConvert_writes [OF c(1)]] obtain ev where
    "col_events (converter t) (evs @ [ev]) (s', b')" by blast
  with e es c(3) show ?case by (intro exI [of _ "(evs @ [ev]) # es'"]) simp
qed auto

lemma object_loop_length: "object_loop E mode pos kvs out missing = Ok row \<Longrightarrow> length row = length out"
  by (induction E mode pos kvs out missing rule: object_loop.induct)
    (auto split: if_splits option.splits outcome.splits)

lemma objectMessageToRow_length: "objectMessageToRow E mode pos msg out = Ok row \<Longrightarrow> length row = length out"
  by (auto simp: objectMessageToRow_def object_loop_length split: option.splits any.splits)

lemma arrayMessageToRow_length: "arrayMessageToRow mode msg out = Ok row \<Longrightarrow> length row = length out"
  by (auto simp: arrayMessageToRow_def Let_def split: option.splits any.splits if_splits)

lemma list_all2_length_trans:
  "list_all2 (\<lambda>e e'. length e' = Suc (length e)) es es' \<Longrightarrow> list_all2 (\<lambda>e e'. length e' = n + length e) es' es'' \<Longrightarrow>
   list_all2 (\<lambda>e e'. length e' = Suc n + length e) es es''"
  by (auto simp: list_all2_conv_all_nth)

lemma convert_batch_events:
  assumes "convert_batch E ts toRow batch cols = Ok cols'" "length ts = length cols"
    and "list_all2 (\<lambda>t (evs, col). col_events (converter t) evs col) ts (zip es cols)" "length es = length cols"
    and len: "\<And>msg out row. toRow msg out = Ok row \<Longrightarrow> length row = length out"
  shows "\<exists>es'. length es' = length cols' \<and> length cols' = length cols \<and>
    list_all2 (\<lambda>t (evs, col). col_events (converter t) evs col) ts (zip es' cols') \<and>
    list_all2 (\<lambda>e e'. length e' = length batch + length e) es es'"
  using assms(1-4)
proof (induction batch arbitrary: cols es)
  case Nil
  then show ?case by (intro exI [of _ es]) (auto simp: list_all2_conv_all_nth)
next
  case (Cons msg batch)
  from Cons.prems(1) obtain row cols1 where c: "toRow msg (replicate (length cols) Nil_val) = Ok row"
    "convert_row E ts row cols = Ok cols1" "convert_batch E ts toRow batch cols1 = Ok cols'" by auto
  have "length row = length cols" using len [OF c(1)] by simp
  from convert_row_events [OF c(2) this Cons.prems(2-4)] obtain es1 where
    e: "length es1 = length cols1" "length cols1 = length cols"
    "list_all2 (\<lambda>t (evs, col). col_events (converter t) evs col) ts (zip es1 cols1)"
    "list_all2 (\<lambda>e e'. length e' = Suc (length e)) es es1" by blast
  have "length ts = length cols1" using e(2) Cons.prems(2) by simp
  from Cons.IH [OF c(3) this e(3,1)] obtain es' where
    "length es' = length cols'" "length cols' = length cols1"
    "list_all2 (\<lambda>t (evs, col). col_events (converter t) evs col) ts (zip es' cols')"
    "list_all2 (\<lambda>e e'. length e' = length batch + length e) es1 es'" by blast
  then show ?case
    using e(2) list_all2_length_trans [OF e(4)] by (intro exI [of _ es']) simp
qed

lemma start_events:
  "list_all2 (\<lambda>t (evs, col). col_events (converter t) evs col) ts
     (zip (replicate (length ts) []) (start_columns ts))"
  by (auto simp: list_all2_conv_all_nth start_columns_def col_events_def collect_stats_def
      Reset_buffer_def new_buffer_def)

lemma write_rows_events:
  assumes "write_rows E ts toRow batch flushed = Ok cols"
    and len: "\<And>msg out row. toRow msg out = Ok row \<Longrightarrow> length row = length out"
  shows "length cols = length ts \<and>
    (\<forall>i < length ts. \<exists>evs. length evs = length batch \<and> col_events (converter (ts ! i)) evs (cols ! i))"
proof -
  have "convert_batch E ts toRow batch (start_columns ts) = Ok cols"
    using assms(1) by (auto simp: write_rows_def split: if_splits)
  then have "\<exists>es'. length es' = length cols \<and> length cols = length (start_columns ts) \<and>
    list_all2 (\<lambda>t (evs, col). col_events (converter t) evs col) ts (zip es' cols) \<and>
    list_all2 (\<lambda>e e'. length e' = length batch + length e) (replicate (length ts) ([] :: stat_event list)) es'"
    by (rule convert_batch_events [where es = "replicate (length ts) []"])
      (simp_all add: start_columns_def len start_events [unfolded start_columns_def])
  then obtain es where
    es: "length es = length cols" "length cols = length ts"
    "list_all2 (\<lambda>t (evs, col). col_events (converter t) evs col) ts (zip es cols)"
    "list_all2 (\<lambda>e e'. length e' = length batch + length e) (replicate (length ts) ([] :: stat_event list)) es"
    by (auto simp: start_columns_def)
  have "length (es ! i) = length batch \<and> col_events (converter (ts ! i)) (es ! i) (cols ! i)" if "i < length ts" for i
    using es that by (auto simp: list_all2_conv_all_nth)
  with es(2) show ?thesis by blast
qed

lemma event_of_kind_one: "list_all (event_of_kind c) evs \<Longrightarrow> one_kind evs"
proof -
  have k: "event_of_kind c ev \<Longrightarrow> ev = NullVal \<or> (\<exists>v. ev = IntVal v)"
    if "\<not> event_of_kind c (RealVal 0)" "\<not> event_of_kind c (BytesVal [])" for ev
    using that by (cases c; cases ev; simp)
  have r: "event_of_kind c ev \<Longrightarrow> ev = NullVal \<or> (\<exists>v. ev = RealVal v)" if "event_of_kind c (RealVal 0)" for ev
    using that by (cases c; cases ev; simp)
  have b: "event_of_kind c ev \<Longrightarrow> ev = NullVal \<or> (\<exists>v. ev = BytesVal v)" if "event_of_kind c (BytesVal [])" for ev
    using that by (cases c; cases ev; simp)
  assume "list_all (event_of_kind c) evs"
  then have ev: "event_of_kind c ev" if "ev \<in> set evs" for ev using that by (simp add: list_all_iff)
  consider "event_of_kind c (RealVal 0)" | "event_of_kind c (BytesVal [])"
    | "\<not> event_of_kind c (RealVal 0)" "\<not> event_of_kind c (BytesVal [])" by blast
  then show ?thesis
  proof cases
    case 1
    have "\<forall>e \<in> set evs. e = NullVal \<or> (\<exists>v. e = RealVal v)" by (rule ballI) (rule r [OF 1 ev])
    then show ?thesis by (simp add: one_kind_def)
  next
    case 2
    have "\<forall>e \<in> set evs. e = NullVal \<or> (\<exists>v. e = BytesVal v)" by (rule ballI) (rule b [OF 2 ev])
    then show ?thesis by (simp add: one_kind_def)
  next
    case 3
    have "\<forall>e \<in> set evs. e = NullVal \<or> (\<exists>v. e = IntVal v)" by (rule ballI) (rule k [OF 3 ev])
    then show ?thesis by (simp add: one_kind_def)
  qed
qed

lemma col_events_merge:
  "col_events c xs (s, b) \<Longrightarrow> col_events c ys (s', b') \<Longrightarrow> mergeStats s s' = collect_stats (xs @ ys)"
  unfolding col_events_def by (auto intro!: merge_collect event_of_kind_one [of c])

lemma foldl_plus: "foldl (+) a ns = a + sum_list (ns :: 'a::monoid_add list)"
  by (induction ns arbitrary: a) (simp_all add: add.assoc)

lemma verify_groups_None:
  "length rgs = length ns \<Longrightarrow> verify_groups i rgs ns = None \<longleftrightarrow>
     map rgNumRows rgs = ns \<and> (\<forall>rg \<in> set rgs. \<forall>c \<in> set (rgNumValues rg). c = rgNumRows rg)"
  by (induction i rgs ns rule: verify_groups.induct) (auto simp: list_ex_iff)

lemma verifyRowCounts_None:
  "verifyRowCounts ns md = None \<longleftrightarrow>
     fNumRows md = sum_list ns \<and> map rgNumRows (fRowGroups md) = ns \<and>
     (\<forall>rg \<in> set (fRowGroups md). \<forall>c \<in> set (rgNumValues rg). c = rgNumRows rg)"
  using verify_groups_None [of "fRowGroups md" ns 0]
  by (auto simp: verifyRowCounts_def Let_def foldl_plus split: if_splits)

subsection \<open>Columns of a schema\<close>

fun conv_nullable :: "dataConverter \<Rightarrow> bool" where
  "conv_nullable (boolConverter n) = n"
| "conv_nullable (numberConverter n _ _) = n"
| "conv_nullable (doubleConverter n) = n"
| "conv_nullable (binaryConverter n _ _) = n"
| "conv_nullable (jsonConverter n _) = n"
| "conv_nullable (jsonArrayConverter n _) = n"
| "conv_nullable (jsonObjectConverter n _) = n"
| "conv_nullable (timestampConverter n _ _ _ _ _) = n"
| "conv_nullable (timeConverter n _) = n"
| "conv_nullable (dateConverter n) = n"

lemma convertFixedType_nullable: "convertFixedType E col = Ok (n, c, b) \<Longrightarrow> conv_nullable c = Nullable col"
  by (auto simp: convertFixedType_def Let_def split: if_splits option.splits)

lemma column_type_nullable: "column_type E fmt col = Ok (n, c, b, semi) \<Longrightarrow> conv_nullable c = Nullable col"
  by (auto simp: column_type_def Let_def dest: convertFixedType_nullable split: if_splits)

definition transformer_ok :: "ext \<Rightarrow> string \<Rightarrow> dataTransformer \<Rightarrow> bool" where
  "transformer_ok E fmt t \<longleftrightarrow>
     normalizeColumnName (strings_ToUpper E) (cName (tcolumn t)) = Ok (tname t) \<and>
     conv_nullable (converter t) = Nullable (tcolumn t)"

lemma schema_column_step:
  "schema_column E fmt col st = Ok st' \<Longrightarrow>
   \<exists>t. transformers st' = transformers st @ [t] \<and> tcolumn t = col \<and> transformer_ok E fmt t \<and>
     dom (groupNode st') = insert (tname t) (dom (groupNode st))"
  by (cases "normalizeColumnName (strings_ToUpper E) (cName col)")
    (auto simp: schema_column_def Let_def transformer_ok_def column_type_nullable)

lemma schema_loop_columns:
  "schema_loop E fmt cols st = Ok st' \<Longrightarrow> list_all (transformer_ok E fmt) (transformers st) \<Longrightarrow>
   dom (groupNode st) = tname ` set (transformers st) \<Longrightarrow>
   map tcolumn (transformers st') = map tcolumn (transformers st) @ cols \<and>
   list_all (transformer_ok E fmt) (transformers st') \<and> dom (groupNode st') = tname ` set (transformers st')"
proof (induction cols arbitrary: st)
  case (Cons c cols)
  then obtain st1 where s: "schema_column E fmt c st = Ok st1" "schema_loop E fmt cols st1 = Ok st'" by auto
  from schema_column_step [OF s(1)] obtain t where
    t: "transformers st1 = transformers st @ [t]" "tcolumn t = c" "transformer_ok E fmt t"
    "dom (groupNode st1) = insert (tname t) (dom (groupNode st))" by blast
  have "map tcolumn (transformers st') = map tcolumn (transformers st1) @ cols \<and>
    list_all (transformer_ok E fmt) (transformers st') \<and> dom (groupNode st') = tname ` set (transformers st')"
    using t Cons.prems by (intro Cons.IH [OF s(2)]) auto
  then show ?case using t by simp
qed simp

subsection \<open>Narrow number columns\<close>

fun cell_value :: "cell \<Rightarrow> int option" where
  "cell_value (FixedLenCell b) = map_option num_val (FromBigEndian b)"
| "cell_value (Int64Cell w) = Some (sint w)"
| "cell_value (Int32Cell w) = Some (sint w)"
| "cell_value _ = None"

lemma WriteInt128_value:
  assumes "bkind b = Int32Buffer \<Longrightarrow> \<bar>num_val v\<bar> < 10 ^ 9" "bkind b = Int64Buffer \<Longrightarrow> \<bar>num_val v\<bar> < 10 ^ 18"
  shows "\<exists>cell. written (WriteInt128 b v) = written b @ [cell] \<and> cell_value cell = Some (num_val v)"
proof -
  have f: "fits_bytes 4 k" if "\<bar>k\<bar> < 10 ^ 9" for k using that by (auto simp: fits_bytes_def)
  have g: "fits_bytes 8 k" if "\<bar>k\<bar> < 10 ^ 18" for k using that by (auto simp: fits_bytes_def)
  show ?thesis
    using FromBigEndian_ToBigEndian [of v "[]"] assms f g
    by (cases "bkind b")
      (auto simp: WriteInt128_def WriteValue_def Let_def AppendBigEndian_eq ToBigEndian_def fits_cells)
qed

lemma convertFixedType_cases:
  assumes "convertFixedType E col = Ok (n, c, k)" "Precision col = None" "Scale col \<in> {None, Some 0}"
  shows "\<exists>p. c = numberConverter (Nullable col) 0 p \<and> 0 \<le> p \<and> p \<le> 38 \<and>
    (k = Int32Buffer \<longrightarrow> p \<le> 9) \<and> (k = Int64Buffer \<longrightarrow> p \<le> 18)"
  using assms by (auto simp: convertFixedType_def Let_def fixed_physical_def split: if_splits)

lemma fixed_lossless:
  assumes "convertFixedType E col = Ok (n, c, k)" "Precision col = None" "Scale col \<in> {None, Some 0}"
    and "text_length v < 2 ^ 31" "\<not> is_float v" "v \<noteq> Nil_val" "bkind b = k"
    and "ValidateAndConvert E c st v b = Ok (st', b')"
  shows "\<exists>m cell. st' = UpdateIntStats st m \<and> written b' = written b @ [cell] \<and> cell_value cell = Some (num_val m)"
proof -
  obtain p where p: "c = numberConverter (Nullable col) 0 p" "0 \<le> p" "p \<le> 38"
    "k = Int32Buffer \<Longrightarrow> p \<le> 9" "k = Int64Buffer \<Longrightarrow> p \<le> 18"
    using convertFixedType_cases [OF assms(1-3)] by blast
  from assms(6,8) p(1) obtain m where m: "number_value E 0 p v = Ok m"
    "st' = UpdateIntStats st m" "b' = WriteInt128 b m"
    by (auto simp: convert_number_def)
  from number_value_bound [OF _ p(2,3) assms(4,5) m(1)] have bnd: "\<bar>num_val m\<bar> < 10 ^ nat p" by simp
  have le: "\<bar>num_val m\<bar> < 10 ^ q" if "nat p \<le> q" for q
    using bnd power_increasing [OF that, of "10 :: int"] by linarith
  have "\<exists>cell. written (WriteInt128 b m) = written b @ [cell] \<and> cell_value cell = Some (num_val m)"
    using p assms(7) le [of 9] le [of 18] by (intro WriteInt128_value) auto
  with m show ?thesis by blast
qed

section \<open>Properties\<close>

text \<open>A sample instance of the external functions, for concrete runs.\<close>

definition example_ext :: ext where
  "example_ext =
     \<lparr>ValueAsBool = (\<lambda>_. None), ValueAsInt64 = (\<lambda>_. None), ValueAsFloat64 = (\<lambda>_. None),
      ValueAsBytes = (\<lambda>_. None), ValueAsTimestamp = (\<lambda>_. None), gabs_Bytes = (\<lambda>_. []),
      strconv_ParseFloat = (\<lambda>_. None), float64_of_int = (\<lambda>_. 0), float64_of_32 = (\<lambda>_. 0),
      FromFloat32 = (\<lambda>_ _ _. None), FromFloat64 = (\<lambda>_ _ _. None), big_ParseFloat = (\<lambda>_. None),
      big_Mul = (*), ParseInLocation = (\<lambda>_ _. None),
      zero_time = \<lparr>Unix = 0, Nanosecond = 0, zone_offset = 0\<rparr>, time_Year = (\<lambda>_. 1970),
      utf8_Valid = (\<lambda>_. True), strings_ToUpper = map ascii_upper, strings_ToLower = id\<rparr>"

definition example_column :: columnMetadata where
  "example_column =
     \<lparr>cName = ''n'', cOrdinal = 1, LogicalType = ''fixed'', PhysicalType = ''SB4'', Precision = None,
      Scale = None, ByteLength = None, Nullable = True\<rparr>"

definition example_transformer :: dataTransformer where
  "example_transformer =
     \<lparr>converter = numberConverter True 0 9, tcolumn = example_column, bufferFactory = Int32Buffer, tname = ''N''\<rparr>"





text \<open>C26. The check before an upload passes exactly when the footer reports the expected total (in
  64-bit arithmetic), the expected rows for every row group in order, and one value per row in every
  column chunk.\<close>

theorem verifyRowCounts_exact:
  "verifyRowCounts ns md = None \<longleftrightarrow>
     fNumRows md = sum_list ns \<and> map rgNumRows (fRowGroups md) = ns \<and>
     list_all (\<lambda>rg. list_all (\<lambda>c. c = rgNumRows rg) (rgNumValues rg)) (fRowGroups md)"
  unfolding list_all_iff by (rule verifyRowCounts_None)

text \<open>C27. A constructed schema has one transformer per column, in ordinal order, whose name is the
  normalised column name and whose converter accepts nulls exactly when the column does; the parquet
  group has exactly these names.\<close>

theorem schema_columns:
  assumes "constructParquetSchema E fmt columns = Ok st"
  shows "map tcolumn (transformers st) = sort_key cOrdinal columns \<and>
    list_all (transformer_ok E fmt) (transformers st) \<and> dom (groupNode st) = tname ` set (transformers st)"
  using schema_loop_columns [OF assms [unfolded constructParquetSchema_def]] by simp

theorem schema_columns_witness:
  "\<exists>st. constructParquetSchema example_ext '''' [example_column] = Ok st \<and> dom (groupNode st) = {''N''}"
proof -
  have "case constructParquetSchema example_ext '''' [example_column] of
      Ok st \<Rightarrow> map tname (transformers st) = [''N''] | _ \<Rightarrow> False"
    by code_simp
  then obtain st where st: "constructParquetSchema example_ext '''' [example_column] = Ok st"
    "map tname (transformers st) = [''N'']"
    by (auto split: outcome.splits)
  have "tname ` set (transformers st) = set (map tname (transformers st))" by simp
  also have "\<dots> = {''N''}" by (simp only: st(2)) simp
  finally show ?thesis using schema_columns [OF st(1)] st(1) by simp
qed



end
