(* ===== verification/PG_Message.thy ===== *)
theory PG_Message
  imports Prelude
begin

text \<open>
  The PostgreSQL logical replication messages of
  \<^verbatim>\<open>src/internal/impl/postgresql/pglogicalstream/replication_message.go\<close>: the
  primitive decoders, one decoder per message type and \<open>Parse\<close>. The source keeps an
  offset \<^verbatim>\<open>low\<close> into the slice and reads \<^verbatim>\<open>src[low:]\<close>; here a
  decoder takes that remaining slice and returns the value with what is left of it, and an
  index or a slice bound out of range is \<open>Panic\<close>. The encoders are the message formats of
  the PostgreSQL protocol; the locale \<open>codec\<close> states that a decoder accepts exactly the
  encodings and consumes exactly one of them.
\<close>

section \<open>Times\<close>

text \<open>
  A \<^verbatim>\<open>time.Time\<close> by the two observations the code makes of it: seconds since
  1970 and nanoseconds within the second.
\<close>

record instant =
  Unix :: int64
  Nanosecond :: int

definition time_Unix0 :: "int64 \<Rightarrow> instant" where
  "time_Unix0 n = \<lparr>Unix = word_of_int (sint n div 1000000000), Nanosecond = sint n mod 1000000000\<rparr>"

definition microsecFromUnixEpochToY2K :: int64 where
  "microsecFromUnixEpochToY2K = 946684800 * 1000000"

definition pgTimeToTime :: "int64 \<Rightarrow> instant" where
  "pgTimeToTime microsecSinceY2K =
     time_Unix0 ((microsecFromUnixEpochToY2K + microsecSinceY2K) * 1000)"

definition timeToPgTime :: "instant \<Rightarrow> int64" where
  "timeToPgTime t =
     (Unix t * 1000000 + word_of_int (Nanosecond t div 1000)) - microsecFromUnixEpochToY2K"

section \<open>Primitive decoders\<close>

datatype pg_error =
    LengthError string nat nat
  | DecodeStringError string string
  | InvalidTupleTypeError string string string byte
  | MsgNotSupported

type_synonym 'a decoded = "(pg_error, 'a \<times> byte list) outcome"

definition read_be :: "nat \<Rightarrow> byte list \<Rightarrow> ('a::len word) decoded" where
  "read_be n src = (case be_read n src of None \<Rightarrow> Panic | Some v \<Rightarrow> Ok (word_of_int v, drop n src))"

definition decodeByte :: "byte list \<Rightarrow> byte decoded" where
  "decodeByte src = (case src of [] \<Rightarrow> Panic | b # src' \<Rightarrow> Ok (b, src'))"

fun decodeString :: "byte list \<Rightarrow> (byte list \<times> byte list) option" where
  "decodeString [] = None"
| "decodeString (b # src) =
     (if b = 0 then Some ([], src) else map_option (\<lambda>(s, r). (b # s, r)) (decodeString src))"

definition decodeStringField :: "string \<Rightarrow> string \<Rightarrow> byte list \<Rightarrow> byte list decoded" where
  "decodeStringField name field src =
     (case decodeString src of None \<Rightarrow> Err (DecodeStringError name field) | Some r \<Rightarrow> Ok r)"

definition decodeLSN :: "byte list \<Rightarrow> uint64 decoded" where
  "decodeLSN src = read_be 8 src"

definition decodeTime :: "byte list \<Rightarrow> instant decoded" where
  "decodeTime src = obind (read_be 8 src) (\<lambda>(micro, src). Ok (pgTimeToTime micro, src))"

definition decodeUint16 :: "byte list \<Rightarrow> uint16 decoded" where
  "decodeUint16 src = read_be 2 src"

definition decodeUint32 :: "byte list \<Rightarrow> uint32 decoded" where
  "decodeUint32 src = read_be 4 src"

definition decodeInt32 :: "byte list \<Rightarrow> uint32 decoded" where
  "decodeInt32 src = decodeUint32 src"

text \<open>The loops \<^verbatim>\<open>for i := range int(n)\<close> that decode one element per turn.\<close>

primrec decode_n ::
  "(nat \<Rightarrow> byte list \<Rightarrow> 'a decoded) \<Rightarrow> nat \<Rightarrow> nat \<Rightarrow> byte list \<Rightarrow> 'a list decoded" where
  "decode_n dec 0 i src = Ok ([], src)"
| "decode_n dec (Suc n) i src =
     obind (dec i src) (\<lambda>(x, src).
     obind (decode_n dec n (Suc i) src) (\<lambda>(xs, src). Ok (x # xs, src)))"

section \<open>Messages\<close>

record BeginMessage =
  FinalLSN :: uint64
  Begin_CommitTime :: instant
  Xid :: uint32

definition BeginMessage_Decode :: "byte list \<Rightarrow> (pg_error, BeginMessage) outcome" where
  "BeginMessage_Decode src =
     (if length src < 20 then Err (LengthError ''BeginMessage'' 20 (length src))
      else obind (decodeLSN src) (\<lambda>(lsn, src).
           obind (decodeTime src) (\<lambda>(time, src).
           obind (decodeUint32 src) (\<lambda>(xid, src).
           Ok \<lparr>FinalLSN = lsn, Begin_CommitTime = time, Xid = xid\<rparr>))))"

record CommitMessage =
  Flags :: byte
  CommitLSN :: uint64
  TransactionEndLSN :: uint64
  CommitTime :: instant

definition CommitMessage_Decode :: "byte list \<Rightarrow> (pg_error, CommitMessage) outcome" where
  "CommitMessage_Decode src =
     (if length src < 25 then Err (LengthError ''CommitMessage'' 25 (length src))
      else obind (decodeByte src) (\<lambda>(flags, src).
           obind (decodeLSN src) (\<lambda>(lsn, src).
           obind (decodeLSN src) (\<lambda>(end, src).
           obind (decodeTime src) (\<lambda>(time, src).
           Ok \<lparr>Flags = flags, CommitLSN = lsn, TransactionEndLSN = end, CommitTime = time\<rparr>)))))"

record OriginMessage =
  Origin_CommitLSN :: uint64
  Origin_Name :: "byte list"

definition OriginMessage_Decode :: "byte list \<Rightarrow> (pg_error, OriginMessage) outcome" where
  "OriginMessage_Decode src =
     (if length src < 8 then Err (LengthError ''OriginMessage'' 9 (length src))
      else obind (decodeLSN src) (\<lambda>(lsn, src).
           obind (decodeStringField ''OriginMessage'' ''Name'' src) (\<lambda>(name, src).
           Ok \<lparr>Origin_CommitLSN = lsn, Origin_Name = name\<rparr>)))"

record RelationMessageColumn =
  Column_Flags :: byte
  Column_Name :: "byte list"
  Column_DataType :: uint32
  TypeModifier :: uint32

record RelationMessage =
  RelationID :: uint32
  Namespace :: "byte list"
  RelationName :: "byte list"
  ReplicaIdentity :: byte
  ColumnNum :: uint16
  Columns :: "RelationMessageColumn list"

definition decode_relation_column :: "nat \<Rightarrow> byte list \<Rightarrow> RelationMessageColumn decoded" where
  "decode_relation_column i src =
     obind (decodeByte src) (\<lambda>(flags, src).
     obind (decodeStringField ''RelationMessage'' (''Column['' @ dec_nat i @ ''].Name'') src) (\<lambda>(name, src).
     obind (decodeUint32 src) (\<lambda>(datatype, src).
     obind (decodeInt32 src) (\<lambda>(modifier, src).
     Ok (\<lparr>Column_Flags = flags, Column_Name = name, Column_DataType = datatype,
          TypeModifier = modifier\<rparr>, src)))))"

definition RelationMessage_Decode :: "byte list \<Rightarrow> (pg_error, RelationMessage) outcome" where
  "RelationMessage_Decode src =
     (if length src < 7 then Err (LengthError ''RelationMessage'' 7 (length src))
      else obind (decodeUint32 src) (\<lambda>(rid, src).
           obind (decodeStringField ''RelationMessage'' ''Namespace'' src) (\<lambda>(namespace, src).
           obind (decodeStringField ''RelationMessage'' ''RelationName'' src) (\<lambda>(name, src).
           obind (decodeByte src) (\<lambda>(identity, src).
           obind (decodeUint16 src) (\<lambda>(num, src).
           obind (decode_n decode_relation_column (unat num) 0 src) (\<lambda>(columns, src).
           Ok \<lparr>RelationID = rid, Namespace = namespace, RelationName = name,
               ReplicaIdentity = identity, ColumnNum = num, Columns = columns\<rparr>)))))))"

record TypeMessage =
  Type_DataType :: uint32
  Type_Namespace :: "byte list"
  Type_Name :: "byte list"

definition TypeMessage_Decode :: "byte list \<Rightarrow> (pg_error, TypeMessage) outcome" where
  "TypeMessage_Decode src =
     (if length src < 6 then Err (LengthError ''TypeMessage'' 6 (length src))
      else obind (decodeUint32 src) (\<lambda>(datatype, src).
           obind (decodeStringField ''TypeMessage'' ''Namespace'' src) (\<lambda>(namespace, src).
           obind (decodeStringField ''TypeMessage'' ''Name'' src) (\<lambda>(name, src).
           Ok \<lparr>Type_DataType = datatype, Type_Namespace = namespace, Type_Name = name\<rparr>))))"

definition TupleDataTypeNull :: byte where "TupleDataTypeNull = 110"
definition TupleDataTypeToast :: byte where "TupleDataTypeToast = 117"
definition TupleDataTypeText :: byte where "TupleDataTypeText = 116"
definition TupleDataTypeBinary :: byte where "TupleDataTypeBinary = 98"

record TupleDataColumn =
  DataType :: byte
  Length :: uint32
  Data :: "byte list"

record TupleData =
  Tuple_ColumnNum :: uint16
  Tuple_Columns :: "TupleDataColumn list"

definition copy_bytes :: "nat \<Rightarrow> byte list \<Rightarrow> byte list decoded" where
  "copy_bytes n src = (if length src < n then Panic else Ok (take n src, drop n src))"

definition decode_tuple_column :: "nat \<Rightarrow> byte list \<Rightarrow> TupleDataColumn decoded" where
  "decode_tuple_column i src =
     obind (decodeByte src) (\<lambda>(kind, src).
       if kind = TupleDataTypeText \<or> kind = TupleDataTypeBinary then
         obind (decodeUint32 src) (\<lambda>(len, src).
         obind (copy_bytes (unat len) src) (\<lambda>(data, src).
         Ok (\<lparr>DataType = kind, Length = len, Data = data\<rparr>, src)))
       else Ok (\<lparr>DataType = kind, Length = 0, Data = []\<rparr>, src))"

definition TupleData_Decode :: "byte list \<Rightarrow> TupleData decoded" where
  "TupleData_Decode src =
     obind (decodeUint16 src) (\<lambda>(num, src).
     obind (decode_n decode_tuple_column (unat num) 0 src) (\<lambda>(columns, src).
     Ok (\<lparr>Tuple_ColumnNum = num, Tuple_Columns = columns\<rparr>, src)))"

definition bytes_string :: "byte list \<Rightarrow> string" where
  "bytes_string bs = map (\<lambda>b. char_of (unat b)) bs"

definition strconv_ParseInt :: "nat \<Rightarrow> string \<Rightarrow> int option" where
  "strconv_ParseInt bits s =
     (case parse_int s of
        Some k \<Rightarrow> if - (2 ^ (bits - 1)) \<le> k \<and> k < 2 ^ (bits - 1) then Some k else None
      | None \<Rightarrow> None)"

definition TupleDataColumn_Int64 :: "TupleDataColumn \<Rightarrow> int64 option" where
  "TupleDataColumn_Int64 c =
     (if DataType c \<noteq> TupleDataTypeText then None
      else map_option word_of_int (strconv_ParseInt 64 (bytes_string (Data c))))"

record InsertMessage =
  Insert_RelationID :: uint32
  Insert_Tuple :: TupleData

definition InsertMessage_Decode :: "byte list \<Rightarrow> (pg_error, InsertMessage) outcome" where
  "InsertMessage_Decode src =
     (if length src < 8 then Err (LengthError ''InsertMessage'' 8 (length src))
      else obind (decodeUint32 src) (\<lambda>(rid, src).
           obind (decodeByte src) (\<lambda>(tupleType, src).
             if tupleType \<noteq> 78 then
               Err (InvalidTupleTypeError ''InsertMessage'' ''TupleType'' ''N'' tupleType)
             else obind (TupleData_Decode src) (\<lambda>(tuple, src).
               Ok \<lparr>Insert_RelationID = rid, Insert_Tuple = tuple\<rparr>))))"

definition UpdateMessageTupleTypeNone :: byte where "UpdateMessageTupleTypeNone = 0"
definition UpdateMessageTupleTypeKey :: byte where "UpdateMessageTupleTypeKey = 75"
definition UpdateMessageTupleTypeOld :: byte where "UpdateMessageTupleTypeOld = 79"
definition UpdateMessageTupleTypeNew :: byte where "UpdateMessageTupleTypeNew = 78"

record UpdateMessage =
  Update_RelationID :: uint32
  OldTupleType :: byte
  OldTuple :: "TupleData option"
  NewTuple :: TupleData

definition UpdateMessage_Decode :: "byte list \<Rightarrow> (pg_error, UpdateMessage) outcome" where
  "UpdateMessage_Decode src =
     (if length src < 6 then Err (LengthError ''UpdateMessage'' 6 (length src))
      else obind (decodeUint32 src) (\<lambda>(rid, src).
           obind (decodeByte src) (\<lambda>(tupleType, src).
             if tupleType = UpdateMessageTupleTypeKey \<or> tupleType = UpdateMessageTupleTypeOld then
               obind (TupleData_Decode src) (\<lambda>(old, src).
               obind (decodeByte src) (\<lambda>(_, src).
               obind (TupleData_Decode src) (\<lambda>(new, src).
               Ok \<lparr>Update_RelationID = rid, OldTupleType = tupleType, OldTuple = Some old,
                   NewTuple = new\<rparr>)))
             else if tupleType = UpdateMessageTupleTypeNew then
               obind (TupleData_Decode src) (\<lambda>(new, src).
               Ok \<lparr>Update_RelationID = rid, OldTupleType = UpdateMessageTupleTypeNone,
                   OldTuple = None, NewTuple = new\<rparr>)
             else Err (InvalidTupleTypeError ''UpdateMessage'' ''Tuple'' ''K/O/N'' tupleType))))"

definition DeleteMessageTupleTypeKey :: byte where "DeleteMessageTupleTypeKey = 75"
definition DeleteMessageTupleTypeOld :: byte where "DeleteMessageTupleTypeOld = 79"

record DeleteMessage =
  Delete_RelationID :: uint32
  Delete_OldTupleType :: byte
  Delete_OldTuple :: TupleData

definition DeleteMessage_Decode :: "byte list \<Rightarrow> (pg_error, DeleteMessage) outcome" where
  "DeleteMessage_Decode src =
     (if length src < 4 then Err (LengthError ''DeleteMessage'' 4 (length src))
      else obind (decodeUint32 src) (\<lambda>(rid, src).
           obind (decodeByte src) (\<lambda>(tupleType, src).
             if tupleType = DeleteMessageTupleTypeKey \<or> tupleType = DeleteMessageTupleTypeOld then
               obind (TupleData_Decode src) (\<lambda>(old, src).
               Ok \<lparr>Delete_RelationID = rid, Delete_OldTupleType = tupleType,
                   Delete_OldTuple = old\<rparr>)
             else Err (InvalidTupleTypeError ''DeleteMessage'' ''OldTupleType'' ''K/O'' tupleType))))"

record TruncateMessage =
  RelationNum :: uint32
  Option :: byte
  RelationIDs :: "uint32 list"

definition TruncateMessage_Decode :: "byte list \<Rightarrow> (pg_error, TruncateMessage) outcome" where
  "TruncateMessage_Decode src =
     (if length src < 9 then Err (LengthError ''TruncateMessage'' 9 (length src))
      else obind (decodeUint32 src) (\<lambda>(num, src).
           obind (decodeByte src) (\<lambda>(option, src).
           obind (decode_n (\<lambda>i. decodeUint32) (unat num) 0 src) (\<lambda>(ids, src).
           Ok \<lparr>RelationNum = num, Option = option, RelationIDs = ids\<rparr>))))"

text \<open>
  The content of a logical decoding message is a slice of the receive buffer, so its upper
  bound is checked against the capacity: \<open>spare\<close> holds the bytes of the backing array
  behind the message. A prefix without a terminator gives \<^verbatim>\<open>used = -1\<close>, which the
  source adds to the offset without a test: the length is then read from offset 8.
\<close>

record LogicalDecodingMessage =
  LSN :: uint64
  Transactional :: bool
  Prefix :: "byte list"
  Content :: "byte list"

definition LogicalDecodingMessage_Decode ::
  "byte list \<Rightarrow> byte list \<Rightarrow> (pg_error, LogicalDecodingMessage) outcome" where
  "LogicalDecodingMessage_Decode src spare =
     (if length src < 14 then Err (LengthError ''LogicalDecodingMessage'' 14 (length src))
      else obind (decodeByte src) (\<lambda>(flags, src1).
           obind (decodeLSN src1) (\<lambda>(lsn, src2).
           let (prefix, src3) = (case decodeString src2 of Some r \<Rightarrow> r | None \<Rightarrow> ([], drop 8 src)) in
           obind (decodeUint32 src3) (\<lambda>(len, src4).
           obind (copy_bytes (unat len) (src4 @ spare)) (\<lambda>(content, _).
           Ok \<lparr>LSN = lsn, Transactional = (flags = 1), Prefix = prefix, Content = content\<rparr>)))))"

section \<open>Parse\<close>

datatype MessageType =
    MessageTypeBegin | MessageTypeMessage | MessageTypeCommit | MessageTypeOrigin
  | MessageTypeRelation | MessageTypeType | MessageTypeInsert | MessageTypeUpdate
  | MessageTypeDelete | MessageTypeTruncate | MessageTypeStreamStart | MessageTypeStreamStop
  | MessageTypeStreamCommit | MessageTypeStreamAbort | MessageTypeUnknown byte

definition message_type :: "byte \<Rightarrow> MessageType" where
  "message_type b =
     (if b = 66 then MessageTypeBegin else if b = 77 then MessageTypeMessage
      else if b = 67 then MessageTypeCommit else if b = 79 then MessageTypeOrigin
      else if b = 82 then MessageTypeRelation else if b = 89 then MessageTypeType
      else if b = 73 then MessageTypeInsert else if b = 85 then MessageTypeUpdate
      else if b = 68 then MessageTypeDelete else if b = 84 then MessageTypeTruncate
      else if b = 83 then MessageTypeStreamStart else if b = 69 then MessageTypeStreamStop
      else if b = 99 then MessageTypeStreamCommit else if b = 65 then MessageTypeStreamAbort
      else MessageTypeUnknown b)"

fun MessageType_String :: "MessageType \<Rightarrow> string" where
  "MessageType_String MessageTypeBegin = ''Begin''"
| "MessageType_String MessageTypeCommit = ''Commit''"
| "MessageType_String MessageTypeOrigin = ''Origin''"
| "MessageType_String MessageTypeRelation = ''Relation''"
| "MessageType_String MessageTypeType = ''Type''"
| "MessageType_String MessageTypeInsert = ''Insert''"
| "MessageType_String MessageTypeUpdate = ''Update''"
| "MessageType_String MessageTypeDelete = ''Delete''"
| "MessageType_String MessageTypeTruncate = ''Truncate''"
| "MessageType_String MessageTypeMessage = ''Message''"
| "MessageType_String MessageTypeStreamStart = ''StreamStart''"
| "MessageType_String MessageTypeStreamStop = ''StreamStop''"
| "MessageType_String MessageTypeStreamCommit = ''StreamCommit''"
| "MessageType_String MessageTypeStreamAbort = ''StreamAbort''"
| "MessageType_String (MessageTypeUnknown b) = ''Unknown''"

datatype Message =
    BeginMsg BeginMessage | CommitMsg CommitMessage | OriginMsg OriginMessage
  | RelationMsg RelationMessage | TypeMsg TypeMessage | InsertMsg InsertMessage
  | UpdateMsg UpdateMessage | DeleteMsg DeleteMessage | TruncateMsg TruncateMessage
  | LogicalMsg LogicalDecodingMessage

fun Type :: "Message \<Rightarrow> MessageType" where
  "Type (BeginMsg m) = MessageTypeBegin"
| "Type (CommitMsg m) = MessageTypeCommit"
| "Type (OriginMsg m) = MessageTypeOrigin"
| "Type (RelationMsg m) = MessageTypeRelation"
| "Type (TypeMsg m) = MessageTypeType"
| "Type (InsertMsg m) = MessageTypeInsert"
| "Type (UpdateMsg m) = MessageTypeUpdate"
| "Type (DeleteMsg m) = MessageTypeDelete"
| "Type (TruncateMsg m) = MessageTypeTruncate"
| "Type (LogicalMsg m) = MessageTypeMessage"

definition omap :: "('a \<Rightarrow> 'b) \<Rightarrow> ('e, 'a) outcome \<Rightarrow> ('e, 'b) outcome" where
  "omap f m = obind m (\<lambda>x. Ok (f x))"

fun getCommonDecoder :: "MessageType \<Rightarrow> (byte list \<Rightarrow> (pg_error, Message) outcome) option" where
  "getCommonDecoder MessageTypeBegin = Some (\<lambda>src. omap BeginMsg (BeginMessage_Decode src))"
| "getCommonDecoder MessageTypeCommit = Some (\<lambda>src. omap CommitMsg (CommitMessage_Decode src))"
| "getCommonDecoder MessageTypeOrigin = Some (\<lambda>src. omap OriginMsg (OriginMessage_Decode src))"
| "getCommonDecoder t = None"

definition Parse :: "byte list \<Rightarrow> byte list \<Rightarrow> (pg_error, Message) outcome" where
  "Parse data spare =
     obind (decodeByte data) (\<lambda>(b, src).
       case message_type b of
         MessageTypeRelation \<Rightarrow> omap RelationMsg (RelationMessage_Decode src)
       | MessageTypeType \<Rightarrow> omap TypeMsg (TypeMessage_Decode src)
       | MessageTypeInsert \<Rightarrow> omap InsertMsg (InsertMessage_Decode src)
       | MessageTypeUpdate \<Rightarrow> omap UpdateMsg (UpdateMessage_Decode src)
       | MessageTypeDelete \<Rightarrow> omap DeleteMsg (DeleteMessage_Decode src)
       | MessageTypeTruncate \<Rightarrow> omap TruncateMsg (TruncateMessage_Decode src)
       | MessageTypeMessage \<Rightarrow> omap LogicalMsg (LogicalDecodingMessage_Decode src spare)
       | t \<Rightarrow> (case getCommonDecoder t of None \<Rightarrow> Err MsgNotSupported | Some decode \<Rightarrow> decode src))"

section \<open>Message formats\<close>

text \<open>
  The formats the PostgreSQL documentation gives for the logical replication protocol,
  written as encoders, with the well-formedness each format needs: strings without a zero
  byte, element counts that match the lists, times the decoder can represent.
\<close>

definition enc_word :: "nat \<Rightarrow> 'a::len word \<Rightarrow> byte list" where
  "enc_word n x = be_bytes n (uint x)"

definition enc_string :: "byte list \<Rightarrow> byte list" where
  "enc_string s = s @ [0]"

definition wf_string :: "byte list \<Rightarrow> bool" where
  "wf_string s \<longleftrightarrow> 0 \<notin> set s"

definition enc_time :: "instant \<Rightarrow> byte list" where
  "enc_time t = enc_word 8 (timeToPgTime t)"

definition wf_time :: "instant \<Rightarrow> bool" where
  "wf_time t \<longleftrightarrow> pgTimeToTime (timeToPgTime t) = t"

definition enc_relation_column :: "RelationMessageColumn \<Rightarrow> byte list" where
  "enc_relation_column c =
     Column_Flags c # enc_string (Column_Name c) @ enc_word 4 (Column_DataType c) @
     enc_word 4 (TypeModifier c)"

definition wf_relation_column :: "RelationMessageColumn \<Rightarrow> bool" where
  "wf_relation_column c \<longleftrightarrow> wf_string (Column_Name c)"

definition enc_tuple_column :: "TupleDataColumn \<Rightarrow> byte list" where
  "enc_tuple_column c =
     (if DataType c = TupleDataTypeText \<or> DataType c = TupleDataTypeBinary
      then DataType c # enc_word 4 (Length c) @ Data c else [DataType c])"

definition wf_tuple_column :: "TupleDataColumn \<Rightarrow> bool" where
  "wf_tuple_column c \<longleftrightarrow>
     (if DataType c = TupleDataTypeText \<or> DataType c = TupleDataTypeBinary
      then length (Data c) = unat (Length c) else Length c = 0 \<and> Data c = [])"

definition enc_tuple :: "TupleData \<Rightarrow> byte list" where
  "enc_tuple t = enc_word 2 (Tuple_ColumnNum t) @ concat (map enc_tuple_column (Tuple_Columns t))"

definition wf_tuple :: "TupleData \<Rightarrow> bool" where
  "wf_tuple t \<longleftrightarrow>
     length (Tuple_Columns t) = unat (Tuple_ColumnNum t) \<and> list_all wf_tuple_column (Tuple_Columns t)"

fun enc_body :: "Message \<Rightarrow> byte list" where
  "enc_body (BeginMsg m) = enc_word 8 (FinalLSN m) @ enc_time (Begin_CommitTime m) @ enc_word 4 (Xid m)"
| "enc_body (CommitMsg m) =
     Flags m # enc_word 8 (CommitLSN m) @ enc_word 8 (TransactionEndLSN m) @ enc_time (CommitTime m)"
| "enc_body (OriginMsg m) = enc_word 8 (Origin_CommitLSN m) @ enc_string (Origin_Name m)"
| "enc_body (RelationMsg m) =
     enc_word 4 (RelationID m) @ enc_string (Namespace m) @ enc_string (RelationName m) @
     ReplicaIdentity m # enc_word 2 (ColumnNum m) @ concat (map enc_relation_column (Columns m))"
| "enc_body (TypeMsg m) =
     enc_word 4 (Type_DataType m) @ enc_string (Type_Namespace m) @ enc_string (Type_Name m)"
| "enc_body (InsertMsg m) = enc_word 4 (Insert_RelationID m) @ 78 # enc_tuple (Insert_Tuple m)"
| "enc_body (UpdateMsg m) =
     enc_word 4 (Update_RelationID m) @
     (case OldTuple m of None \<Rightarrow> [] | Some old \<Rightarrow> OldTupleType m # enc_tuple old) @
     78 # enc_tuple (NewTuple m)"
| "enc_body (DeleteMsg m) =
     enc_word 4 (Delete_RelationID m) @ Delete_OldTupleType m # enc_tuple (Delete_OldTuple m)"
| "enc_body (TruncateMsg m) =
     enc_word 4 (RelationNum m) @ Option m # concat (map (enc_word 4) (RelationIDs m))"
| "enc_body (LogicalMsg m) =
     (if Transactional m then 1 else 0) # enc_word 8 (LSN m) @ enc_string (Prefix m) @
     be_bytes 4 (int (length (Content m))) @ Content m"

fun wf_message :: "Message \<Rightarrow> bool" where
  "wf_message (BeginMsg m) \<longleftrightarrow> wf_time (Begin_CommitTime m)"
| "wf_message (CommitMsg m) \<longleftrightarrow> wf_time (CommitTime m)"
| "wf_message (OriginMsg m) \<longleftrightarrow> wf_string (Origin_Name m)"
| "wf_message (RelationMsg m) \<longleftrightarrow>
     wf_string (Namespace m) \<and> wf_string (RelationName m) \<and>
     length (Columns m) = unat (ColumnNum m) \<and> list_all wf_relation_column (Columns m)"
| "wf_message (TypeMsg m) \<longleftrightarrow> wf_string (Type_Namespace m) \<and> wf_string (Type_Name m)"
| "wf_message (InsertMsg m) \<longleftrightarrow> wf_tuple (Insert_Tuple m)"
| "wf_message (UpdateMsg m) \<longleftrightarrow>
     wf_tuple (NewTuple m) \<and>
     (case OldTuple m of
        None \<Rightarrow> OldTupleType m = UpdateMessageTupleTypeNone
      | Some old \<Rightarrow> wf_tuple old \<and> OldTupleType m \<in> {UpdateMessageTupleTypeKey, UpdateMessageTupleTypeOld})"
| "wf_message (DeleteMsg m) \<longleftrightarrow>
     wf_tuple (Delete_OldTuple m) \<and>
     Delete_OldTupleType m \<in> {DeleteMessageTupleTypeKey, DeleteMessageTupleTypeOld}"
| "wf_message (TruncateMsg m) \<longleftrightarrow>
     length (RelationIDs m) = unat (RelationNum m)"
| "wf_message (LogicalMsg m) \<longleftrightarrow> wf_string (Prefix m) \<and> length (Content m) < 2 ^ 32"

fun type_byte :: "Message \<Rightarrow> byte" where
  "type_byte (BeginMsg m) = 66"
| "type_byte (CommitMsg m) = 67"
| "type_byte (OriginMsg m) = 79"
| "type_byte (RelationMsg m) = 82"
| "type_byte (TypeMsg m) = 89"
| "type_byte (InsertMsg m) = 73"
| "type_byte (UpdateMsg m) = 85"
| "type_byte (DeleteMsg m) = 68"
| "type_byte (TruncateMsg m) = 84"
| "type_byte (LogicalMsg m) = 77"

definition enc_message :: "Message \<Rightarrow> byte list" where
  "enc_message m = type_byte m # enc_body m"

text \<open>
  The least body length a decoder admits; for insert and truncate messages it is more than
  the shortest body of the format, for the other types it is not.
\<close>

fun min_body :: "Message \<Rightarrow> nat" where
  "min_body (InsertMsg m) = 8"
| "min_body (TruncateMsg m) = 9"
| "min_body m = 0"

text \<open>
  The messages whose bytes are determined by the decoded value: a decoded time may have
  wrapped, the byte between the two tuples of an update is skipped unread, and a logical
  decoding message may take its content from behind the message.
\<close>

fun exact_kind :: "Message \<Rightarrow> bool" where
  "exact_kind (BeginMsg m) = False"
| "exact_kind (CommitMsg m) = False"
| "exact_kind (UpdateMsg m) = (OldTuple m = None)"
| "exact_kind (LogicalMsg m) = False"
| "exact_kind m = True"

section \<open>Codecs\<close>

text \<open>
  The contract between an element decoder and the loops and messages that call it: it
  succeeds exactly on the encodings of well-formed values and leaves what follows them.
\<close>

locale codec =
  fixes enc :: "'a \<Rightarrow> byte list"
    and dec :: "nat \<Rightarrow> byte list \<Rightarrow> 'a decoded"
    and wf :: "'a \<Rightarrow> bool"
  assumes dec_iff: "dec i src = Ok (x, r) \<longleftrightarrow> wf x \<and> src = enc x @ r"
begin

lemma dec_enc: "wf x \<Longrightarrow> dec i (enc x @ r) = Ok (x, r)"
  by (simp add: dec_iff)

lemma decode_n_iff:
  "decode_n dec n i src = Ok (xs, r) \<longleftrightarrow>
     length xs = n \<and> list_all wf xs \<and> src = concat (map enc xs) @ r"
proof (induction n arbitrary: i src xs)
  case (Suc n)
  then show ?case by (cases xs) (auto simp: dec_iff)
qed auto

lemma decode_n_enc:
  "length xs = n \<Longrightarrow> list_all wf xs \<Longrightarrow> decode_n dec n i (concat (map enc xs) @ r) = Ok (xs, r)"
  by (simp add: decode_n_iff)

lemma enc_inj: "wf x \<Longrightarrow> wf y \<Longrightarrow> enc x @ r = enc y @ s \<Longrightarrow> x = y \<and> r = s"
  using dec_iff [of 0 "enc x @ r" x r] dec_iff [of 0 "enc x @ r" y s] by simp

end

lemma read_be_iff:
  assumes "LENGTH('a::len) = 8 * n"
  shows "read_be n src = Ok ((x :: 'a word), r) \<longleftrightarrow> src = enc_word n x @ r"
proof
  have p: "(256::int) ^ n = 2 ^ LENGTH('a)" using assms by (simp add: power_mult)
  assume "read_be n src = Ok (x, r)"
  then have len: "n \<le> length src" and x: "x = word_of_int (be_val (take n src))"
    and r: "r = drop n src"
    by (auto simp: read_be_def be_read_def split: if_splits)
  have "uint x = be_val (take n src)"
    using be_val_bounds [of "take n src"] len unfolding x
    by (simp add: uint_word_of_int p [symmetric])
  then have "enc_word n x = take n src"
    using be_bytes_be_val [of "take n src"] len by (simp add: enc_word_def min_absorb2)
  then show "src = enc_word n x @ r" by (simp add: r)
next
  have p: "(256::int) ^ n = 2 ^ LENGTH('a)" using assms by (simp add: power_mult)
  assume "src = enc_word n x @ r"
  then show "read_be n src = Ok (x, r)"
    by (simp add: read_be_def enc_word_def be_read_be_bytes p)
qed

lemma decodeByte_Cons [simp]: "decodeByte (b # r) = Ok (b, r)"
  by (simp add: decodeByte_def)

lemma decodeByte_iff [simp]: "decodeByte src = Ok (b, r) \<longleftrightarrow> src = b # r"
  by (cases src) (auto simp: decodeByte_def)

lemma decodeString_iff: "decodeString src = Some (s, r) \<longleftrightarrow> wf_string s \<and> src = enc_string s @ r"
proof (induction src arbitrary: s)
  case (Cons b src)
  show ?case
  proof (cases s)
    case Nil
    then show ?thesis by (auto simp: wf_string_def enc_string_def)
  next
    case (Cons c s')
    then show ?thesis
      using Cons.IH [of s'] by (auto simp: wf_string_def enc_string_def)
  qed
qed (simp add: enc_string_def)

lemma decodeStringField_iff: "decodeStringField name field src = Ok p \<longleftrightarrow> decodeString src = Some p"
  by (simp add: decodeStringField_def split: option.split)

interpretation string_codec: codec enc_string "\<lambda>i. decodeStringField name field" wf_string
  by unfold_locales (simp add: decodeStringField_iff decodeString_iff)

interpretation uint16_codec: codec "enc_word 2" "\<lambda>i. decodeUint16" "\<lambda>_. True"
  by unfold_locales (simp add: decodeUint16_def read_be_iff)

interpretation uint32_codec: codec "enc_word 4" "\<lambda>i. decodeUint32" "\<lambda>_. True"
  by unfold_locales (simp add: decodeUint32_def read_be_iff)

interpretation lsn_codec: codec "enc_word 8" "\<lambda>i. decodeLSN" "\<lambda>_. True"
  by unfold_locales (simp add: decodeLSN_def read_be_iff)

lemmas primitive_iffs =
  string_codec.dec_iff uint16_codec.dec_iff uint32_codec.dec_iff lsn_codec.dec_iff

interpretation relation_column_codec: codec enc_relation_column decode_relation_column wf_relation_column
proof
  fix i src x r
  show "decode_relation_column i src = Ok (x, r) \<longleftrightarrow> wf_relation_column x \<and> src = enc_relation_column x @ r"
    by (cases x)
      (auto simp: decode_relation_column_def decodeInt32_def wf_relation_column_def
        enc_relation_column_def primitive_iffs)
qed

lemma copy_bytes_append [simp]: "copy_bytes (length xs) (xs @ r) = Ok (xs, r)"
  by (simp add: copy_bytes_def)

lemma copy_bytes_iff [simp]: "copy_bytes n src = Ok (data, r) \<longleftrightarrow> length data = n \<and> src = data @ r"
  by (auto simp: copy_bytes_def)

interpretation tuple_column_codec: codec enc_tuple_column decode_tuple_column wf_tuple_column
proof
  fix i src x r
  show "decode_tuple_column i src = Ok (x, r) \<longleftrightarrow> wf_tuple_column x \<and> src = enc_tuple_column x @ r"
    by (cases x; cases src)
      (auto simp: decode_tuple_column_def wf_tuple_column_def enc_tuple_column_def decodeByte_def
        primitive_iffs split: if_splits)
qed

interpretation tuple_codec: codec enc_tuple "\<lambda>i. TupleData_Decode" wf_tuple
proof
  fix i src x r
  show "TupleData_Decode src = Ok (x, r) \<longleftrightarrow> wf_tuple x \<and> src = enc_tuple x @ r"
    by (cases x)
      (auto simp: TupleData_Decode_def wf_tuple_def enc_tuple_def primitive_iffs
        tuple_column_codec.decode_n_iff)
qed

lemmas decoder_iffs =
  primitive_iffs relation_column_codec.decode_n_iff tuple_codec.dec_iff uint32_codec.decode_n_iff

lemmas decoder_encs =
  string_codec.dec_enc uint16_codec.dec_enc uint32_codec.dec_enc lsn_codec.dec_enc
  relation_column_codec.decode_n_enc tuple_codec.dec_enc uint32_codec.decode_n_enc

section \<open>Times survive exactly within range\<close>

lemma sint_range64: "- (2 ^ 63) \<le> sint (x :: int64)" "sint (x :: int64) < 2 ^ 63"
  using sint_greater_eq [of x] sint_less [of x] by simp_all

lemma sint_word_of_int64:
  "- (2 ^ 63) \<le> k \<Longrightarrow> k < 2 ^ 63 \<Longrightarrow> sint (word_of_int k :: int64) = k"
  by (simp add: sint_sbintrunc' signed_take_bit_int_eq_self)

lemma sint_cong64: "\<exists>j. sint (word_of_int k :: int64) = k + j * 2 ^ 64"
proof -
  have "uint (word_of_int (sint (word_of_int k :: int64)) :: int64) = uint (word_of_int k :: int64)"
    by simp
  then have "sint (word_of_int k :: int64) mod 2 ^ 64 = k mod 2 ^ 64"
    by (simp only: uint_word_of_int) simp
  then have "2 ^ 64 dvd sint (word_of_int k :: int64) - k" by (simp add: mod_eq_dvd_iff)
  then obtain j where "sint (word_of_int k :: int64) - k = 2 ^ 64 * j" by (rule dvdE)
  then show ?thesis by (intro exI [of _ j]) (simp add: algebra_simps)
qed

lemma split_nanos: "(n div 1000000000) * 1000000 + n mod 1000000000 div 1000 = n div (1000 :: int)"
proof -
  have g: "(q * 1000000 * 1000 + r) div 1000 = q * 1000000 + r div 1000" for q r :: int by simp
  have "n div 1000000000 * 1000000 * 1000 + n mod 1000000000 = n"
    using div_mult_mod_eq [of n 1000000000] by simp
  with g [of "n div 1000000000" "n mod 1000000000"] show ?thesis by (simp only:)
qed

lemma timeToPgTime_Unix0:
  "timeToPgTime (time_Unix0 n) = word_of_int (sint n div 1000) - microsecFromUnixEpochToY2K"
proof -
  have "(word_of_int (sint n div 1000000000) * 1000000
      + word_of_int (sint n mod 1000000000 div 1000) :: int64)
      = word_of_int ((sint n div 1000000000) * 1000000 + sint n mod 1000000000 div 1000)"
    by simp
  then show ?thesis by (simp only: timeToPgTime_def time_Unix0_def instant.simps split_nanos)
qed

lemma millis_exact:
  "sint (x * 1000 :: int64) div 1000 = sint x \<longleftrightarrow>
     - (2 ^ 63) \<le> sint x * 1000 \<and> sint x * 1000 < 2 ^ 63"
proof -
  have e: "x * 1000 = word_of_int (sint x * 1000)" by simp
  obtain j where j: "sint (x * 1000) = sint x * 1000 + j * 2 ^ 64"
    using sint_cong64 [of "sint x * 1000"] e by metis
  show ?thesis
  proof
    assume "sint (x * 1000) div 1000 = sint x"
    then have "sint x * 1000 \<le> sint (x * 1000)" "sint (x * 1000) < sint x * 1000 + 1000"
      using div_mult_mod_eq [of "sint (x * 1000)" 1000] pos_mod_bound [of 1000 "sint (x * 1000)"]
        pos_mod_sign [of 1000 "sint (x * 1000)"] by linarith+
    then have "j = 0" using j by simp
    then show "- (2 ^ 63) \<le> sint x * 1000 \<and> sint x * 1000 < 2 ^ 63"
      using j sint_range64 [of "x * 1000"] by simp
  next
    assume "- (2 ^ 63) \<le> sint x * 1000 \<and> sint x * 1000 < 2 ^ 63"
    then have "sint (x * 1000) = sint x * 1000" unfolding e by (intro sint_word_of_int64) auto
    then show "sint (x * 1000) div 1000 = sint x" by simp
  qed
qed

lemma y2k_add:
  "sint (microsecFromUnixEpochToY2K + m) * 1000 \<in> {- (2 ^ 63)..<2 ^ 63} \<longleftrightarrow>
     (946684800000000 + sint m) * 1000 \<in> {- (2 ^ 63)..<2 ^ 63}"
proof -
  have e: "microsecFromUnixEpochToY2K + m = word_of_int (946684800000000 + sint m)"
    by (simp add: microsecFromUnixEpochToY2K_def)
  obtain j where "sint (microsecFromUnixEpochToY2K + m) = 946684800000000 + sint m + j * 2 ^ 64"
    using sint_cong64 [of "946684800000000 + sint m"] e by metis
  moreover have "j = 0 \<or> 1 \<le> j \<or> j \<le> -1" by auto
  ultimately show ?thesis
    using sint_range64 [of m] sint_range64 [of "microsecFromUnixEpochToY2K + m"] by auto
qed

text \<open>C36. A PostgreSQL timestamp survives the conversion to a Go time and back exactly when
  its nanoseconds since 1970 fit in 64 bits; every other timestamp, from the year 2262 on or
  before 1677, is silently changed.\<close>

theorem pgTime_roundtrip:
  "timeToPgTime (pgTimeToTime m) = m \<longleftrightarrow>
     - (2 ^ 63) \<le> (946684800000000 + sint m) * 1000 \<and> (946684800000000 + sint m) * 1000 < 2 ^ 63"
proof -
  let ?x = "microsecFromUnixEpochToY2K + m"
  have "timeToPgTime (pgTimeToTime m) = m \<longleftrightarrow> word_of_int (sint (?x * 1000) div 1000) = ?x"
    by (auto simp: pgTimeToTime_def timeToPgTime_Unix0 algebra_simps)
  also have "\<dots> \<longleftrightarrow> sint (?x * 1000) div 1000 = sint ?x"
  proof
    assume "word_of_int (sint (?x * 1000) div 1000) = ?x"
    then have "sint (word_of_int (sint (?x * 1000) div 1000) :: int64) = sint ?x" by simp
    moreover have "sint (word_of_int (sint (?x * 1000) div 1000) :: int64) = sint (?x * 1000) div 1000"
      using sint_range64 [of "?x * 1000"] by (intro sint_word_of_int64) auto
    ultimately show "sint (?x * 1000) div 1000 = sint ?x" by simp
  qed simp
  also have "\<dots> \<longleftrightarrow> sint ?x * 1000 \<in> {- (2 ^ 63)..<2 ^ 63}" by (simp only: millis_exact) simp
  finally show ?thesis by (simp only: y2k_add) simp
qed

section \<open>Decoders of messages\<close>

lemma length_enc [simp]:
  "length (enc_word n x) = n" "length (enc_string s) = length s + 1" "length (enc_time t) = 8"
  by (simp_all add: enc_word_def enc_string_def enc_time_def)

lemma length_enc_tuple: "2 \<le> length (enc_tuple t)"
  by (simp add: enc_tuple_def)

lemma enc_tuple_neq_Nil [simp]: "enc_tuple t \<noteq> []"
  using length_enc_tuple [of t] by auto

lemma decodeTime_enc: "wf_time t \<Longrightarrow> decodeTime (enc_time t @ r) = Ok (t, r)"
  by (simp add: decodeTime_def enc_time_def wf_time_def lsn_codec.dec_enc [unfolded decodeLSN_def])

lemma OriginMessage_iff:
  "OriginMessage_Decode src = Ok m \<longleftrightarrow>
     wf_message (OriginMsg m) \<and> (\<exists>tail. src = enc_body (OriginMsg m) @ tail)"
proof
  assume "OriginMessage_Decode src = Ok m"
  then show "wf_message (OriginMsg m) \<and> (\<exists>tail. src = enc_body (OriginMsg m) @ tail)"
    by (cases m) (auto simp: OriginMessage_Decode_def decoder_iffs split: if_splits)
next
  assume "wf_message (OriginMsg m) \<and> (\<exists>tail. src = enc_body (OriginMsg m) @ tail)"
  then show "OriginMessage_Decode src = Ok m"
    by (elim conjE exE, hypsubst) (auto simp: OriginMessage_Decode_def decoder_encs)
qed

lemma RelationMessage_iff:
  "RelationMessage_Decode src = Ok m \<longleftrightarrow>
     wf_message (RelationMsg m) \<and> (\<exists>tail. src = enc_body (RelationMsg m) @ tail)"
proof
  assume "RelationMessage_Decode src = Ok m"
  then show "wf_message (RelationMsg m) \<and> (\<exists>tail. src = enc_body (RelationMsg m) @ tail)"
    by (cases m) (auto simp: RelationMessage_Decode_def decoder_iffs split: if_splits)
next
  assume "wf_message (RelationMsg m) \<and> (\<exists>tail. src = enc_body (RelationMsg m) @ tail)"
  then show "RelationMessage_Decode src = Ok m"
    by (elim conjE exE, hypsubst) (auto simp: RelationMessage_Decode_def decoder_encs)
qed

lemma TypeMessage_iff:
  "TypeMessage_Decode src = Ok m \<longleftrightarrow>
     wf_message (TypeMsg m) \<and> (\<exists>tail. src = enc_body (TypeMsg m) @ tail)"
proof
  assume "TypeMessage_Decode src = Ok m"
  then show "wf_message (TypeMsg m) \<and> (\<exists>tail. src = enc_body (TypeMsg m) @ tail)"
    by (cases m) (auto simp: TypeMessage_Decode_def decoder_iffs split: if_splits)
next
  assume "wf_message (TypeMsg m) \<and> (\<exists>tail. src = enc_body (TypeMsg m) @ tail)"
  then show "TypeMessage_Decode src = Ok m"
    by (elim conjE exE, hypsubst) (auto simp: TypeMessage_Decode_def decoder_encs)
qed

lemma InsertMessage_iff:
  "InsertMessage_Decode src = Ok m \<longleftrightarrow>
     wf_message (InsertMsg m) \<and> 8 \<le> length src \<and> (\<exists>tail. src = enc_body (InsertMsg m) @ tail)"
proof
  assume "InsertMessage_Decode src = Ok m"
  then show "wf_message (InsertMsg m) \<and> 8 \<le> length src \<and> (\<exists>tail. src = enc_body (InsertMsg m) @ tail)"
    by (cases m) (auto simp: InsertMessage_Decode_def decoder_iffs split: if_splits)
next
  assume "wf_message (InsertMsg m) \<and> 8 \<le> length src \<and> (\<exists>tail. src = enc_body (InsertMsg m) @ tail)"
  then show "InsertMessage_Decode src = Ok m"
    by (elim conjE exE, hypsubst) (auto simp: InsertMessage_Decode_def decoder_encs)
qed

lemma DeleteMessage_iff:
  "DeleteMessage_Decode src = Ok m \<longleftrightarrow>
     wf_message (DeleteMsg m) \<and> (\<exists>tail. src = enc_body (DeleteMsg m) @ tail)"
proof
  assume "DeleteMessage_Decode src = Ok m"
  then show "wf_message (DeleteMsg m) \<and> (\<exists>tail. src = enc_body (DeleteMsg m) @ tail)"
    by (cases m) (auto simp: DeleteMessage_Decode_def decoder_iffs split: if_splits)
next
  assume "wf_message (DeleteMsg m) \<and> (\<exists>tail. src = enc_body (DeleteMsg m) @ tail)"
  then show "DeleteMessage_Decode src = Ok m"
    by (elim conjE exE, hypsubst) (auto simp: DeleteMessage_Decode_def decoder_encs)
qed

lemma TruncateMessage_iff:
  "TruncateMessage_Decode src = Ok m \<longleftrightarrow>
     wf_message (TruncateMsg m) \<and> 9 \<le> length src \<and> (\<exists>tail. src = enc_body (TruncateMsg m) @ tail)"
proof
  assume "TruncateMessage_Decode src = Ok m"
  then show "wf_message (TruncateMsg m) \<and> 9 \<le> length src \<and> (\<exists>tail. src = enc_body (TruncateMsg m) @ tail)"
    by (cases m) (auto simp: TruncateMessage_Decode_def decoder_iffs split: if_splits)
next
  assume "wf_message (TruncateMsg m) \<and> 9 \<le> length src \<and> (\<exists>tail. src = enc_body (TruncateMsg m) @ tail)"
  then show "TruncateMessage_Decode src = Ok m"
    by (elim conjE exE, hypsubst) (auto simp: TruncateMessage_Decode_def decoder_encs list.pred_True)
qed

lemma BeginMessage_enc:
  "wf_message (BeginMsg m) \<Longrightarrow> BeginMessage_Decode (enc_body (BeginMsg m) @ tail) = Ok m"
  by (simp add: BeginMessage_Decode_def decoder_encs decodeTime_enc)

lemma CommitMessage_enc:
  "wf_message (CommitMsg m) \<Longrightarrow> CommitMessage_Decode (enc_body (CommitMsg m) @ tail) = Ok m"
  by (simp add: CommitMessage_Decode_def decoder_encs decodeTime_enc)

lemmas update_tuple_types =
  UpdateMessageTupleTypeKey_def UpdateMessageTupleTypeOld_def UpdateMessageTupleTypeNew_def
  UpdateMessageTupleTypeNone_def

lemma UpdateMessage_enc:
  "wf_message (UpdateMsg m) \<Longrightarrow> UpdateMessage_Decode (enc_body (UpdateMsg m) @ tail) = Ok m"
proof (cases m)
  case (fields rid kind old new)
  assume wf: "wf_message (UpdateMsg m)"
  show ?thesis
  proof (cases old)
    case None
    then show ?thesis
      using wf length_enc_tuple [of new]
      by (simp add: fields UpdateMessage_Decode_def decoder_encs update_tuple_types)
  next
    case (Some t)
    then have "kind = UpdateMessageTupleTypeKey \<or> kind = UpdateMessageTupleTypeOld" "wf_tuple t" "wf_tuple new"
      using wf by (simp_all add: fields)
    then show ?thesis
      using length_enc_tuple [of new] Some
      by (simp add: fields UpdateMessage_Decode_def decoder_encs)
  qed
qed

lemma UpdateMessage_new_only:
  assumes "UpdateMessage_Decode src = Ok m" "OldTuple m = None"
  shows "wf_message (UpdateMsg m) \<and> (\<exists>tail. src = enc_body (UpdateMsg m) @ tail)"
  using assms
  by (cases m) (auto simp: UpdateMessage_Decode_def decoder_iffs update_tuple_types split: if_splits)

lemma LogicalDecodingMessage_enc:
  assumes "wf_message (LogicalMsg m)"
  shows "LogicalDecodingMessage_Decode (enc_body (LogicalMsg m) @ tail) spare = Ok m"
proof -
  have len: "decodeUint32 (be_bytes 4 (int (length (Content m))) @ r)
      = Ok (word_of_nat (length (Content m)), r)" for r
    using assms uint32_codec.dec_enc [of "word_of_nat (length (Content m))" r]
    by (simp add: enc_word_def uint_nat of_nat_inverse)
  have "decodeString (enc_string (Prefix m) @ r) = Some (Prefix m, r)" for r
    using assms by (simp add: decodeString_iff)
  then show ?thesis
    using assms by (simp add: LogicalDecodingMessage_Decode_def decoder_encs len of_nat_inverse)
qed

lemma message_type_byte [simp]: "message_type (type_byte m) = Type m"
  by (cases m) (simp_all add: message_type_def)

lemma omap_eq_Ok [simp]: "omap f m = Ok y \<longleftrightarrow> (\<exists>x. m = Ok x \<and> y = f x)"
  by (auto simp: omap_def)

lemma omap_Ok [simp]: "omap f (Ok x) = Ok (f x)"
  by (simp add: omap_def)

lemma omap_eq_Panic [simp]: "omap f m = Panic \<longleftrightarrow> m = Panic"
  by (simp add: omap_def)

lemma message_type_inv: "message_type b = Type m \<Longrightarrow> b = type_byte m"
  by (cases m) (simp_all add: message_type_def split: if_splits)

lemma Parse_type_byte:
  "Parse (type_byte m # src) spare =
     (case m of
        BeginMsg _ \<Rightarrow> omap BeginMsg (BeginMessage_Decode src)
      | CommitMsg _ \<Rightarrow> omap CommitMsg (CommitMessage_Decode src)
      | OriginMsg _ \<Rightarrow> omap OriginMsg (OriginMessage_Decode src)
      | RelationMsg _ \<Rightarrow> omap RelationMsg (RelationMessage_Decode src)
      | TypeMsg _ \<Rightarrow> omap TypeMsg (TypeMessage_Decode src)
      | InsertMsg _ \<Rightarrow> omap InsertMsg (InsertMessage_Decode src)
      | UpdateMsg _ \<Rightarrow> omap UpdateMsg (UpdateMessage_Decode src)
      | DeleteMsg _ \<Rightarrow> omap DeleteMsg (DeleteMessage_Decode src)
      | TruncateMsg _ \<Rightarrow> omap TruncateMsg (TruncateMessage_Decode src)
      | LogicalMsg _ \<Rightarrow> omap LogicalMsg (LogicalDecodingMessage_Decode src spare))"
  by (cases m) (simp_all add: Parse_def del: type_byte.simps)

lemma Parse_typed:
  assumes "Parse data spare = Ok m"
  shows "\<exists>src. data = type_byte m # src"
proof (cases data)
  case (Cons b src)
  then have "message_type b = Type m"
    using assms by (cases "message_type b") (auto simp: Parse_def)
  then show ?thesis using Cons message_type_inv by blast
qed (use assms in \<open>simp add: Parse_def decodeByte_def\<close>)

lemmas message_iffs =
  OriginMessage_iff RelationMessage_iff TypeMessage_iff InsertMessage_iff DeleteMessage_iff
  TruncateMessage_iff

lemmas message_encs =
  BeginMessage_enc CommitMessage_enc UpdateMessage_enc LogicalDecodingMessage_enc

lemma Parse_enc:
  assumes "wf_message m" "min_body m \<le> length (enc_body m @ tail)"
  shows "Parse (enc_message m @ tail) spare = Ok m"
  using assms
  by (cases m)
    (simp_all add: enc_message_def Parse_type_byte message_iffs message_encs
      del: type_byte.simps enc_body.simps wf_message.simps)





text \<open>C35. No byte string makes the parser panic on a begin, commit, origin or type message, or on
  a message type it does not support: it returns a message or an error.\<close>

theorem Parse_panic_free:
  assumes "data \<noteq> []"
    and "message_type (hd data) \<notin> {MessageTypeRelation, MessageTypeInsert, MessageTypeUpdate,
      MessageTypeDelete, MessageTypeTruncate, MessageTypeMessage}"
  shows "Parse data spare \<noteq> Panic"
proof -
  obtain b src where data: "data = b # src" using assms(1) by (cases data) auto
  have "BeginMessage_Decode src \<noteq> Panic" "CommitMessage_Decode src \<noteq> Panic"
    "OriginMessage_Decode src \<noteq> Panic" "TypeMessage_Decode src \<noteq> Panic"
    by (auto simp: BeginMessage_Decode_def CommitMessage_Decode_def OriginMessage_Decode_def
        TypeMessage_Decode_def decodeLSN_def decodeTime_def decodeUint32_def decodeStringField_def
        decodeByte_def read_be_def be_read_def split: option.splits list.splits if_splits)
  then show ?thesis
    using assms(2) by (cases "message_type b") (simp_all add: data Parse_def)
qed

theorem Parse_panic_free_witness: "Parse [89, 0, 0, 0, 1, 65, 66] [] \<noteq> Panic"
  by (rule Parse_panic_free) (simp_all add: message_type_def)

text \<open>C40. A delete message of exactly the four bytes its length check admits panics: the tuple
  type is read one byte past the end.\<close>

theorem DeleteMessage_panics:
  assumes "length src = 4"
  shows "Parse (68 # src) spare = Panic"
proof -
  obtain id where "decodeUint32 src = Ok (id, [])"
    using assms by (auto simp: decodeUint32_def read_be_def be_read_def)
  then have "DeleteMessage_Decode src = Panic"
    using assms by (simp add: DeleteMessage_Decode_def decodeByte_def)
  then show ?thesis by (simp add: Parse_def message_type_def)
qed

theorem DeleteMessage_panics_witness: "Parse (68 # [0, 0, 0, 1]) [] = Panic"
  by (rule DeleteMessage_panics) simp

text \<open>The insert into a table without columns is rejected: its message is one byte shorter
  than the length check asks for.\<close>

theorem InsertMessage_rejects_no_columns:
  assumes "wf_tuple (Insert_Tuple m)" "Tuple_ColumnNum (Insert_Tuple m) = 0"
  shows "Parse (enc_message (InsertMsg m)) spare = Err (LengthError ''InsertMessage'' 8 7)"
  using assms
  by (simp add: Parse_def enc_message_def message_type_def InsertMessage_Decode_def wf_tuple_def
      enc_tuple_def omap_def)

theorem InsertMessage_rejects_no_columns_witness:
  "Parse (enc_message (InsertMsg \<lparr>Insert_RelationID = 3,
     Insert_Tuple = \<lparr>Tuple_ColumnNum = 0, Tuple_Columns = []\<rparr>\<rparr>)) []
   = Err (LengthError ''InsertMessage'' 8 7)"
  by (rule InsertMessage_rejects_no_columns) (simp_all add: wf_tuple_def)

text \<open>
  The content of a logical decoding message whose length field is too large is taken from
  behind the message, from whatever the receive buffer holds there.
\<close>

lemma LogicalDecodingMessage_reads_past_end:
  "LogicalDecodingMessage_Decode [1, 0, 0, 0, 0, 0, 0, 0, 9, 0, 0, 0, 0, 2] [7, 8, 9] =
     Ok \<lparr>LSN = 9, Transactional = True, Prefix = [], Content = [7, 8]\<rparr>"
  by code_simp

end
