(* ===== verification/PG_Sanitize.thy ===== *)
theory PG_Sanitize
  imports Prelude "HOL-Library.Code_Target_Nat"
begin

text \<open>
  \<^verbatim>\<open>src/internal/impl/postgresql/pglogicalstream/sanitize/sanitize.go\<close>: the SQL lexer
  that finds placeholders, the substitution of quoted arguments and the quoting of
  identifiers. A Go string is a list of bytes, here a list of characters; the lexer is a
  state machine over the lexer record, one definition per state function, each giving one
  turn of that function's loop, and \<open>lex_run\<close> runs it to the end.
\<close>

section \<open>UTF-8\<close>

text \<open>
  \<^verbatim>\<open>utf8.DecodeRuneInString\<close>: the first rune and its width, with width 0 at the
  end of the string and the replacement character at width 1 for an invalid byte.
\<close>

definition RuneError :: nat where "RuneError = 65533"

definition byte_of :: "char \<Rightarrow> nat" where
  "byte_of c = of_char c"

definition in_range :: "nat \<Rightarrow> nat \<Rightarrow> char \<Rightarrow> bool" where
  "in_range lo hi c \<longleftrightarrow> lo \<le> byte_of c \<and> byte_of c \<le> hi"

definition cont_val :: "char \<Rightarrow> nat" where
  "cont_val c = byte_of c mod 64"

definition second_range :: "nat \<Rightarrow> nat \<times> nat" where
  "second_range b =
     (if b = 224 then (160, 191) else if b = 237 then (128, 159)
      else if b = 240 then (144, 191) else if b = 244 then (128, 143) else (128, 191))"

definition rune_size :: "nat \<Rightarrow> nat" where
  "rune_size b =
     (if b < 128 then 1 else if b < 194 then 0 else if b < 224 then 2 else if b < 240 then 3
      else if b < 245 then 4 else 0)"

definition DecodeRune :: "string \<Rightarrow> nat \<times> nat" where
  "DecodeRune s =
     (case s of [] \<Rightarrow> (RuneError, 0)
      | c # cs \<Rightarrow>
         let b = byte_of c; n = rune_size b; (lo, hi) = second_range b in
         if n = 1 then (b, 1)
         else if n = 0 \<or> length s < n \<or> \<not> in_range lo hi (hd cs) \<or>
                 \<not> list_all (in_range 128 191) (take (n - 2) (tl cs)) then (RuneError, 1)
         else (foldl (\<lambda>r d. r * 64 + cont_val d) (b mod 2 ^ (7 - n)) (take (n - 1) cs), n))"

text \<open>
  \<^verbatim>\<open>for _, r := range s\<close>: \<open>runes\<close> splits a string into its runes, each
  with the bytes it was read from. \<open>WriteRune\<close> writes a valid rune as it was read and an
  invalid byte as the replacement character.
\<close>

lemma DecodeRune_width: "s \<noteq> [] \<Longrightarrow> 0 < snd (DecodeRune s)"
  by (cases s) (auto simp: DecodeRune_def Let_def rune_size_def split: prod.splits if_splits)

function runes :: "string \<Rightarrow> (nat \<times> string) list" where
  "runes s =
     (if s = [] then []
      else (fst (DecodeRune s),
            take (snd (DecodeRune s)) s) # runes (drop (snd (DecodeRune s)) s))"
  by auto
termination
  by (relation "measure length") (auto simp: DecodeRune_width)

declare runes.simps [simp del]

definition replacement :: string where
  "replacement = [CHR 0xEF, CHR 0xBF, CHR 0xBD]"

fun WriteRune :: "nat \<times> string \<Rightarrow> string" where
  "WriteRune (r, bs) = (if r = RuneError then replacement else bs)"

section \<open>Arguments\<close>

datatype arg =
    ArgNil
  | ArgInt64 int64
  | ArgFloat64 int64
  | ArgBool bool
  | ArgBytes "string"
  | ArgString string
  | ArgTime int
  | ArgOther string

definition quote :: char where "quote = CHR 0x27"
definition dquote :: char where "dquote = CHR 0x22"

fun double_char :: "char \<Rightarrow> string \<Rightarrow> string" where
  "double_char q [] = []"
| "double_char q (c # cs) = (if c = q then q # q # double_char q cs else c # double_char q cs)"

definition quoteString :: "string \<Rightarrow> string" where
  "quoteString str = quote # double_char quote str @ [quote]"

definition hex_digit :: "nat \<Rightarrow> char" where
  "hex_digit d = (if d < 10 then char_of (48 + d) else char_of (87 + d))"

definition hex_EncodeToString :: "string \<Rightarrow> string" where
  "hex_EncodeToString buf = concat (map (\<lambda>c. [hex_digit (byte_of c div 16), hex_digit (byte_of c mod 16)]) buf)"

definition quoteBytes :: "string \<Rightarrow> string" where
  "quoteBytes buf = quote # CHR 0x5C # CHR ''x'' # hex_EncodeToString buf @ [quote]"

section \<open>Query.Sanitize\<close>

datatype part = RawPart string | ArgPart int64

datatype sanitize_error =
    ArgNotPositive
  | InsufficientArguments
  | InvalidArgType string
  | UnusedArgument nat

text \<open>
  \<open>format_float\<close> and \<open>format_time\<close> are \<^verbatim>\<open>strconv.FormatFloat\<close> with
  \<^verbatim>\<open>'f', -1\<close> and the time format of the source, quotes included.
\<close>

definition arg_string ::
  "(int64 \<Rightarrow> string) \<Rightarrow> (int \<Rightarrow> string) \<Rightarrow> arg \<Rightarrow> sanitize_error + string" where
  "arg_string format_float format_time arg =
     (case arg of
        ArgNil \<Rightarrow> Inr ''null''
      | ArgInt64 i \<Rightarrow> Inr (dec_int (sint i))
      | ArgFloat64 f \<Rightarrow> Inr (format_float f)
      | ArgBool b \<Rightarrow> Inr (if b then ''true'' else ''false'')
      | ArgBytes b \<Rightarrow> Inr (quoteBytes b)
      | ArgString s \<Rightarrow> Inr (quoteString s)
      | ArgTime t \<Rightarrow> Inr (format_time t)
      | ArgOther ty \<Rightarrow> Inl (InvalidArgType ty))"

fun sanitize_parts ::
  "(int64 \<Rightarrow> string) \<Rightarrow> (int \<Rightarrow> string) \<Rightarrow> arg list \<Rightarrow> bool list \<Rightarrow> part list
     \<Rightarrow> sanitize_error + bool list \<times> string" where
  "sanitize_parts ff ft args used [] = Inr (used, [])"
| "sanitize_parts ff ft args used (RawPart s # ps) =
     (case sanitize_parts ff ft args used ps of
        Inl e \<Rightarrow> Inl e | Inr (used', out) \<Rightarrow> Inr (used', s @ out))"
| "sanitize_parts ff ft args used (ArgPart n # ps) =
     (let argIdx = sint (n - 1) in
      if argIdx < 0 then Inl ArgNotPositive
      else if int (length args) \<le> argIdx then Inl InsufficientArguments
      else case arg_string ff ft (args ! nat argIdx) of
             Inl e \<Rightarrow> Inl e
           | Inr str \<Rightarrow>
              (case sanitize_parts ff ft args (used[nat argIdx := True]) ps of
                 Inl e \<Rightarrow> Inl e
               | Inr (used', out) \<Rightarrow> Inr (used', '' '' @ str @ '' '' @ out)))"

fun first_unused :: "nat \<Rightarrow> bool list \<Rightarrow> nat option" where
  "first_unused i [] = None"
| "first_unused i (u # us) = (if u then first_unused (Suc i) us else Some i)"

definition Sanitize ::
  "(int64 \<Rightarrow> string) \<Rightarrow> (int \<Rightarrow> string) \<Rightarrow> part list \<Rightarrow> arg list \<Rightarrow> sanitize_error + string" where
  "Sanitize ff ft parts args =
     (case sanitize_parts ff ft args (replicate (length args) False) parts of
        Inl e \<Rightarrow> Inl e
      | Inr (used, out) \<Rightarrow>
         (case first_unused 0 used of Some i \<Rightarrow> Inl (UnusedArgument i) | None \<Rightarrow> Inr out))"

section \<open>The lexer\<close>

record sqlLexer =
  src :: string
  start :: nat
  pos :: nat
  nested :: int
  parts :: "part list"

datatype stateFn =
    RawState | SingleQuoteState | DoubleQuoteState | PlaceholderState int64
  | EscapeStringState | OneLineCommentState | MultilineCommentState

definition replacementcharacterwidth :: nat where "replacementcharacterwidth = 3"

definition rune_at :: "sqlLexer \<Rightarrow> nat \<times> nat" where
  "rune_at l = DecodeRune (drop (pos l) (src l))"

definition advance :: "nat \<Rightarrow> sqlLexer \<Rightarrow> sqlLexer" where
  "advance w l = l\<lparr>pos := pos l + w\<rparr>"

definition slice :: "string \<Rightarrow> nat \<Rightarrow> nat \<Rightarrow> string" where
  "slice s a b = take (b - a) (drop a s)"

text \<open>The case \<^verbatim>\<open>utf8.RuneError\<close> every state function has, after the advance.\<close>

definition rune_error :: "nat \<Rightarrow> stateFn \<Rightarrow> sqlLexer \<Rightarrow> stateFn option \<times> sqlLexer" where
  "rune_error width st l =
     (if width \<noteq> replacementcharacterwidth then
        (None, if pos l - start l > 0
               then l\<lparr>parts := parts l @ [RawPart (slice (src l) (start l) (pos l))], start := pos l\<rparr>
               else l)
      else (Some st, l))"

definition rawState :: "sqlLexer \<Rightarrow> stateFn option \<times> sqlLexer" where
  "rawState l0 =
     (let (r, width) = rune_at l0; l = advance width l0; (nextRune, width') = rune_at l in
      if r = 101 \<or> r = 69 then
        (if nextRune = 39 then (Some EscapeStringState, advance width' l) else (Some RawState, l))
      else if r = 39 then (Some SingleQuoteState, l)
      else if r = 34 then (Some DoubleQuoteState, l)
      else if r = 36 then
        (if 48 \<le> nextRune \<and> nextRune \<le> 57 then
           (Some (PlaceholderState 0),
            (if pos l - start l > 0
             then l\<lparr>parts := parts l @ [RawPart (slice (src l) (start l) (pos l - width))]\<rparr>
             else l)\<lparr>start := pos l\<rparr>)
         else (Some RawState, l))
      else if r = 45 then
        (if nextRune = 45 then (Some OneLineCommentState, advance width' l) else (Some RawState, l))
      else if r = 47 then
        (if nextRune = 42 then (Some MultilineCommentState, advance width' l) else (Some RawState, l))
      else if r = RuneError then rune_error width RawState l
      else (Some RawState, l))"

definition singleQuoteState :: "sqlLexer \<Rightarrow> stateFn option \<times> sqlLexer" where
  "singleQuoteState l0 =
     (let (r, width) = rune_at l0; l = advance width l0; (nextRune, width') = rune_at l in
      if r = 39 then
        (if nextRune \<noteq> 39 then (Some RawState, l) else (Some SingleQuoteState, advance width' l))
      else if r = RuneError then rune_error width SingleQuoteState l
      else (Some SingleQuoteState, l))"

definition doubleQuoteState :: "sqlLexer \<Rightarrow> stateFn option \<times> sqlLexer" where
  "doubleQuoteState l0 =
     (let (r, width) = rune_at l0; l = advance width l0; (nextRune, width') = rune_at l in
      if r = 34 then
        (if nextRune \<noteq> 34 then (Some RawState, l) else (Some DoubleQuoteState, advance width' l))
      else if r = RuneError then rune_error width DoubleQuoteState l
      else (Some DoubleQuoteState, l))"

definition placeholderState :: "int64 \<Rightarrow> sqlLexer \<Rightarrow> stateFn option \<times> sqlLexer" where
  "placeholderState num l0 =
     (let (r, width) = rune_at l0; l = advance width l0 in
      if 48 \<le> r \<and> r \<le> 57 then (Some (PlaceholderState (num * 10 + word_of_nat (r - 48))), l)
      else (Some RawState,
            l\<lparr>parts := parts l @ [ArgPart num], pos := pos l - width, start := pos l - width\<rparr>))"

definition escapeStringState :: "sqlLexer \<Rightarrow> stateFn option \<times> sqlLexer" where
  "escapeStringState l0 =
     (let (r, width) = rune_at l0; l = advance width l0; (nextRune, width') = rune_at l in
      if r = 92 then (Some EscapeStringState, advance width' l)
      else if r = 39 then
        (if nextRune \<noteq> 39 then (Some RawState, l) else (Some EscapeStringState, advance width' l))
      else if r = RuneError then rune_error width EscapeStringState l
      else (Some EscapeStringState, l))"

definition oneLineCommentState :: "sqlLexer \<Rightarrow> stateFn option \<times> sqlLexer" where
  "oneLineCommentState l0 =
     (let (r, width) = rune_at l0; l = advance width l0; (nextRune, width') = rune_at l in
      if r = 92 then (Some OneLineCommentState, advance width' l)
      else if r = 10 \<or> r = 13 then (Some RawState, l)
      else if r = RuneError then rune_error width OneLineCommentState l
      else (Some OneLineCommentState, l))"

definition multilineCommentState :: "sqlLexer \<Rightarrow> stateFn option \<times> sqlLexer" where
  "multilineCommentState l0 =
     (let (r, width) = rune_at l0; l = advance width l0; (nextRune, width') = rune_at l in
      if r = 47 then
        (if nextRune = 42 then (Some MultilineCommentState, (advance width' l)\<lparr>nested := nested l + 1\<rparr>)
         else (Some MultilineCommentState, l))
      else if r = 42 then
        (if nextRune \<noteq> 47 then (Some MultilineCommentState, l)
         else if nested l = 0 then (Some RawState, advance width' l)
         else (Some MultilineCommentState, (advance width' l)\<lparr>nested := nested l - 1\<rparr>))
      else if r = RuneError then rune_error width MultilineCommentState l
      else (Some MultilineCommentState, l))"

fun lex_step :: "stateFn \<Rightarrow> sqlLexer \<Rightarrow> stateFn option \<times> sqlLexer" where
  "lex_step RawState l = rawState l"
| "lex_step SingleQuoteState l = singleQuoteState l"
| "lex_step DoubleQuoteState l = doubleQuoteState l"
| "lex_step (PlaceholderState num) l = placeholderState num l"
| "lex_step EscapeStringState l = escapeStringState l"
| "lex_step OneLineCommentState l = oneLineCommentState l"
| "lex_step MultilineCommentState l = multilineCommentState l"

text \<open>
  A turn that continues either consumes input or leaves the placeholder state, so the
  driver loop of \<^verbatim>\<open>NewQuery\<close> ends.
\<close>

fun lex_measure :: "stateFn \<Rightarrow> sqlLexer \<Rightarrow> nat" where
  "lex_measure (PlaceholderState num) l = 2 * (length (src l) - pos l) + 1"
| "lex_measure st l = 2 * (length (src l) - pos l)"

lemma rune_at_end: "length (src l) \<le> pos l \<Longrightarrow> rune_at l = (RuneError, 0)"
  by (simp add: rune_at_def DecodeRune_def)

lemma rune_at_width: "pos l < length (src l) \<Longrightarrow> 0 < snd (rune_at l)"
  by (simp add: rune_at_def DecodeRune_width)

lemma advance_simps [simp]:
  "src (advance w l) = src l" "pos (advance w l) = pos l + w" "start (advance w l) = start l"
  "parts (advance w l) = parts l" "nested (advance w l) = nested l"
  by (simp_all add: advance_def)

lemmas lex_defs =
  rawState_def singleQuoteState_def doubleQuoteState_def placeholderState_def escapeStringState_def
  oneLineCommentState_def multilineCommentState_def

lemma lex_step_measure:
  assumes "lex_step st l = (Some st', l')"
  shows "lex_measure st' l' < lex_measure st l"
proof (cases "pos l < length (src l)")
  case True
  obtain r w where rw: "rune_at l = (r, w)" "0 < w"
    using rune_at_width [OF True] by (cases "rune_at l") auto
  obtain r' w' where rw': "rune_at (advance w l) = (r', w')" by fastforce
  have "lex_measure st' l' < 2 * (length (src l) - pos l) \<or> 
      (\<exists>num. st = PlaceholderState num) \<and> st' = RawState \<and> pos l' = pos l \<and> src l' = src l"
    using assms True rw(2)
    by (cases st) (auto simp: lex_defs Let_def rw(1) rw' rune_error_def split: if_splits)
  then show ?thesis by (cases st) auto
next
  case False
  then have "rune_at l = (RuneError, 0)" by (simp add: rune_at_end)
  then show ?thesis
    using assms
    by (cases st) (auto simp: lex_defs Let_def rune_error_def RuneError_def replacementcharacterwidth_def
        split: prod.splits)
qed

function lex_run :: "stateFn option \<Rightarrow> sqlLexer \<Rightarrow> sqlLexer" where
  "lex_run None l = l"
| "lex_run (Some st) l = (case lex_step st l of (st', l') \<Rightarrow> lex_run st' l')"
  by pat_completeness auto
termination
  by (relation "measure (\<lambda>(st, l). case st of None \<Rightarrow> 0 | Some st \<Rightarrow> Suc (lex_measure st l))")
    (auto split: option.split prod.split dest: lex_step_measure)

definition NewQuery :: "string \<Rightarrow> part list" where
  "NewQuery sql = parts (lex_run (Some RawState) \<lparr>src = sql, start = 0, pos = 0, nested = 0, parts = []\<rparr>)"

definition SQLQuery ::
  "(int64 \<Rightarrow> string) \<Rightarrow> (int \<Rightarrow> string) \<Rightarrow> string \<Rightarrow> arg list \<Rightarrow> sanitize_error + string" where
  "SQLQuery ff ft sql args = Sanitize ff ft (NewQuery sql) args"

section \<open>Identifiers\<close>

datatype ident_error =
    MissingQuotes | InvalidQuoted string | EmptyIdentifier | IdentifierTooLong
  | EmptyQuoted | BadFirstCharacter | BadCharacter nat

definition MaxIdentifierLength :: nat where "MaxIdentifierLength = 63"

definition QuotePostgresIdentifier :: "string \<Rightarrow> string" where
  "QuotePostgresIdentifier name =
     dquote # concat (map (\<lambda>r. if fst r = 34 then [dquote, dquote] else WriteRune r) (runes name)) @ [dquote]"

definition is_quoted :: "string \<Rightarrow> bool" where
  "is_quoted s \<longleftrightarrow> 2 \<le> length s \<and> hd s = dquote \<and> last s = dquote"

text \<open>The loop over the bytes between the quotes; \<open>None\<close> is the lone-quote error.\<close>

fun unquote_loop :: "string \<Rightarrow> string option" where
  "unquote_loop [] = Some []"
| "unquote_loop [c] = (if c = dquote then None else Some [c])"
| "unquote_loop (c # d # cs) =
     (if c \<noteq> dquote then map_option ((#) c) (unquote_loop (d # cs))
      else if d \<noteq> dquote then None
      else map_option ((#) c) (unquote_loop cs))"

definition UnquotePostgresIdentifier :: "string \<Rightarrow> ident_error + string" where
  "UnquotePostgresIdentifier quoted =
     (if \<not> is_quoted quoted then Inl MissingQuotes
      else case unquote_loop (butlast (tl quoted)) of
             None \<Rightarrow> Inl (InvalidQuoted quoted) | Some s \<Rightarrow> Inr s)"

fun bad_rune :: "(nat \<Rightarrow> bool) \<Rightarrow> nat \<Rightarrow> (nat \<times> string) list \<Rightarrow> nat option" where
  "bad_rune ok i [] = None"
| "bad_rune ok i ((r, bs) # rs) =
     (if \<not> ok r \<and> r \<noteq> 95 \<and> r \<noteq> 46 then Some i else bad_rune ok (i + length bs) rs)"

text \<open>
  \<open>letter\<close> and \<open>digit\<close> are \<^verbatim>\<open>unicode.IsLetter\<close> and
  \<^verbatim>\<open>unicode.IsDigit\<close>, \<open>lower\<close> is \<^verbatim>\<open>strings.ToLower\<close>.
\<close>

definition NormalizePostgresIdentifier ::
  "(nat \<Rightarrow> bool) \<Rightarrow> (nat \<Rightarrow> bool) \<Rightarrow> (string \<Rightarrow> string) \<Rightarrow> string \<Rightarrow> ident_error + string" where
  "NormalizePostgresIdentifier letter digit lower name =
     (if name = [] then Inl EmptyIdentifier
      else if MaxIdentifierLength < length name then Inl IdentifierTooLong
      else if is_quoted name then
        (let unquoted = butlast (tl name) in
         if unquoted = [] then Inl EmptyQuoted
         else case unquote_loop unquoted of None \<Rightarrow> Inl (InvalidQuoted unquoted) | Some _ \<Rightarrow> Inr name)
      else if \<not> letter (byte_of (hd name)) \<and> hd name \<noteq> CHR ''_'' then Inl BadFirstCharacter
      else case bad_rune (\<lambda>r. letter r \<or> digit r) 0 (runes name) of
             Some i \<Rightarrow> Inl (BadCharacter i)
           | None \<Rightarrow> Inr (QuotePostgresIdentifier (lower name)))"

section \<open>Facts about UTF-8\<close>

definition valid_utf8 :: "string \<Rightarrow> bool" where
  "valid_utf8 s \<longleftrightarrow> list_all (\<lambda>(r, bs). r = RuneError \<longrightarrow> bs = replacement) (runes s)"

definition ToValidUTF8 :: "string \<Rightarrow> string" where
  "ToValidUTF8 s = concat (map WriteRune (runes s))"

lemma runes_Nil [simp]: "runes [] = []"
  by (simp add: runes.simps)

lemma runes_step:
  "s \<noteq> [] \<Longrightarrow> DecodeRune s = (r, w) \<Longrightarrow> runes s = (r, take w s) # runes (drop w s)"
  by (subst runes.simps) simp

lemma concat_runes: "concat (map snd (runes s)) = s"
proof (induction s rule: runes.induct)
  case (1 s)
  then show ?case by (subst runes.simps) simp
qed

lemma ToValidUTF8_valid: "valid_utf8 s \<Longrightarrow> ToValidUTF8 s = s"
proof -
  assume "valid_utf8 s"
  then have "map WriteRune (runes s) = map snd (runes s)"
    by (auto simp: valid_utf8_def list_all_iff)
  then show ?thesis by (simp only: ToValidUTF8_def concat_runes)
qed

lemma rune_size_cases:
  "rune_size b = 1 \<and> b < 128 \<or> rune_size b = 0 \<or> rune_size b = 2 \<and> 194 \<le> b \<and> b < 224
   \<or> rune_size b = 3 \<and> 224 \<le> b \<and> b < 240 \<or> rune_size b = 4 \<and> 240 \<le> b \<and> b < 245"
  by (simp add: rune_size_def)

lemma second_range_ge: "second_range b = (lo, hi) \<Longrightarrow> 128 \<le> lo \<and> hi < 192"
  by (auto simp: second_range_def split: if_splits)

lemma DecodeRune_multi:
  assumes n: "1 < rune_size (byte_of c)" and ok: "DecodeRune (c # cs) = (r, w)" "r \<noteq> RuneError \<or> w \<noteq> 1"
  shows "w = rune_size (byte_of c) \<and> w \<le> length (c # cs) \<and>
     r = foldl (\<lambda>r d. r * 64 + cont_val d) (byte_of c mod 2 ^ (7 - w)) (take (w - 1) cs) \<and>
     (case second_range (byte_of c) of (lo, hi) \<Rightarrow> in_range lo hi (hd cs)) \<and>
     list_all (in_range 128 191) (take (w - 2) (tl cs))"
  using n ok by (auto simp: DecodeRune_def Let_def split: prod.splits if_splits)

lemma foldl_cont_ge: "k * 64 ^ length ds \<le> foldl (\<lambda>r d. r * 64 + cont_val d) k ds"
proof (induction ds arbitrary: k)
  case (Cons d ds)
  have "k * 64 ^ length (d # ds) \<le> (k * 64 + cont_val d) * 64 ^ length ds"
    by (simp add: algebra_simps)
  also have "\<dots> \<le> foldl (\<lambda>r d. r * 64 + cont_val d) (k * 64 + cont_val d) ds" by (rule Cons.IH)
  finally show ?case by simp
qed simp

lemma cont_val_eq:
  assumes "in_range lo hi d" "128 \<le> lo" "hi \<le> 191"
  shows "cont_val d = byte_of d - 128" "lo \<le> byte_of d"
proof -
  obtain x where x: "byte_of d = 128 + x" using assms by (metis in_range_def le_Suc_ex le_trans)
  moreover have "x < 64" using assms x by (simp add: in_range_def)
  moreover have "(128 + x) mod 64 = x mod 64" by (metis mod_mult_self3 numeral_Bit0 mult_2)
  ultimately show "cont_val d = byte_of d - 128" by (simp add: cont_val_def)
  show "lo \<le> byte_of d" using assms by (simp add: in_range_def)
qed

lemma multi_rune_ge:
  assumes n: "1 < rune_size (byte_of c)" and ok: "DecodeRune (c # cs) = (r, w)" "r \<noteq> RuneError \<or> w \<noteq> 1"
  shows "128 \<le> r"
proof -
  let ?k = "byte_of c mod 2 ^ (7 - w)"
  note m = DecodeRune_multi [OF assms]
  have len: "length (take (w - 1) cs) = w - 1" using m by auto
  have ge: "?k * 64 ^ (w - 1) \<le> r"
    using foldl_cont_ge [of ?k "take (w - 1) cs"] m len by simp
  from n rune_size_cases [of "byte_of c"] m
  consider (two) "w = 2" "194 \<le> byte_of c" "byte_of c < 224"
    | (three) "w = 3" "224 \<le> byte_of c" "byte_of c < 240"
    | (four) "w = 4" "240 \<le> byte_of c" "byte_of c < 245" by auto
  then show ?thesis
  proof cases
    case two
    then have "2 \<le> ?k" by simp presburger
    then show ?thesis using ge two by simp
  next
    case three
    show ?thesis
    proof (cases "byte_of c = 224")
      case True
      have "2 \<le> length cs" using m three by simp
      then obtain d e ds where ds: "cs = d # e # ds"
        by (auto simp: numeral_eq_Suc Suc_le_length_iff)
      then have cs: "take 2 cs = [d, e]" by simp
      have "in_range 160 191 d" using m True ds by (simp add: second_range_def)
      then have "32 \<le> cont_val d" using cont_val_eq [of 160 191 d] by simp
      then show ?thesis using m three cs True by simp
    next
      case False
      then have "1 \<le> ?k" using three by simp presburger
      then show ?thesis using ge three by simp
    qed
  next
    case four
    show ?thesis
    proof (cases "byte_of c = 240")
      case True
      have "3 \<le> length cs" using m four by simp
      then obtain d e f ds where ds: "cs = d # e # f # ds"
        by (auto simp: numeral_eq_Suc Suc_le_length_iff)
      then have cs: "take 3 cs = [d, e, f]" by simp
      have "in_range 144 191 d" using m True ds by (simp add: second_range_def)
      then have "16 \<le> cont_val d" using cont_val_eq [of 144 191 d] by simp
      then show ?thesis using m four cs True by simp
    next
      case False
      then have "1 \<le> ?k" using four by simp presburger
      then show ?thesis using ge four by simp
    qed
  qed
qed

text \<open>The three kinds of rune: an ASCII byte, an invalid byte, several bytes from 128 up.\<close>

lemma DecodeRune_cases:
  assumes "s \<noteq> []"
  obtains (ascii) c cs where "s = c # cs" "byte_of c < 128" "DecodeRune s = (byte_of c, 1)"
  | (invalid) c cs where "s = c # cs" "128 \<le> byte_of c" "DecodeRune s = (RuneError, 1)"
  | (multi) r w where "DecodeRune s = (r, w)" "2 \<le> w" "w \<le> length s" "128 \<le> r"
      "\<forall>c\<in>set (take w s). 128 \<le> byte_of c"
proof -
  obtain c cs where s: "s = c # cs" using assms by (cases s) auto
  obtain r w where rw: "DecodeRune s = (r, w)" by fastforce
  consider "rune_size (byte_of c) = 1" | "rune_size (byte_of c) = 0" | "1 < rune_size (byte_of c)"
    by linarith
  then show thesis
  proof cases
    case 1
    then have "byte_of c < 128" using rune_size_cases [of "byte_of c"] by auto
    moreover have "DecodeRune s = (byte_of c, 1)"
      using 1 by (simp add: s DecodeRune_def Let_def split: prod.splits)
    ultimately show ?thesis using s that(1) by blast
  next
    case 2
    then have "128 \<le> byte_of c" by (simp add: rune_size_def split: if_splits)
    moreover have "DecodeRune s = (RuneError, 1)"
      using 2 by (simp add: s DecodeRune_def Let_def split: prod.splits)
    ultimately show ?thesis using s that(2) by blast
  next
    case 3
    then have b: "128 \<le> byte_of c" using rune_size_cases [of "byte_of c"] by auto
    show ?thesis
    proof (cases "r \<noteq> RuneError \<or> w \<noteq> 1")
      case True
      note m = DecodeRune_multi [OF 3 rw [unfolded s] True]
      have "2 \<le> w" using m 3 by simp
      then obtain d ds where cs: "cs = d # ds" using m by (cases cs) auto
      obtain k where w: "w = Suc (Suc k)" using \<open>2 \<le> w\<close> by (metis add_2_eq_Suc le_Suc_ex)
      obtain lo hi where "second_range (byte_of c) = (lo, hi)" by fastforce
      then have "128 \<le> byte_of d" using m cs second_range_ge by (fastforce simp: in_range_def)
      moreover have "\<forall>e\<in>set (take k ds). 128 \<le> byte_of e"
        using m cs w by (auto simp: list_all_iff in_range_def)
      ultimately have "\<forall>e\<in>set (take w s). 128 \<le> byte_of e" using b by (auto simp: s cs w)
      then show ?thesis
        using that(3) [OF rw \<open>2 \<le> w\<close>] m multi_rune_ge [OF 3 rw [unfolded s] True] s by simp
    next
      case False
      then show ?thesis using that(2) [OF s b] rw by simp
    qed
  qed
qed

text \<open>A rune that is not an error is decoded from its own bytes, whatever follows.\<close>

lemma DecodeRune_prefix:
  assumes "DecodeRune s = (r, w)" "s \<noteq> []" "r \<noteq> RuneError \<or> w \<noteq> 1"
  shows "DecodeRune (take w s @ t) = (r, w)"
proof -
  obtain c cs where s: "s = c # cs" using assms by (cases s) auto
  show ?thesis
  proof (cases "1 < rune_size (byte_of c)")
    case True
    note m = DecodeRune_multi [OF True assms(1) [unfolded s] assms(3)]
    then obtain d ds where cs: "cs = d # ds" using True by (cases cs) auto
    obtain k where w: "w = Suc (Suc k)" using m True by (metis One_nat_def Suc_le_eq add_2_eq_Suc le_Suc_ex numeral_2_eq_2)
    have n: "rune_size (byte_of c) = Suc (Suc k)" using m w by simp
    have "k \<le> length ds" using m by (simp add: cs w)
    moreover have "case second_range (byte_of c) of (lo, hi) \<Rightarrow> in_range lo hi d"
      "list_all (in_range 128 191) (take k ds)"
      using m by (simp_all add: cs w)
    ultimately show ?thesis
      using m by (auto simp: s cs w DecodeRune_def Let_def n split: prod.splits)
  next
    case False
    then have "rune_size (byte_of c) \<noteq> 0 \<longrightarrow> rune_size (byte_of c) = 1" by linarith
    moreover have "rune_size (byte_of c) \<noteq> 0"
      using assms by (auto simp: s DecodeRune_def Let_def split: prod.splits if_splits)
    ultimately have n: "rune_size (byte_of c) = 1" by simp
    then have "r = byte_of c" "w = 1"
      using assms by (simp_all add: s DecodeRune_def Let_def split: prod.splits)
    then show ?thesis using n by (simp add: s DecodeRune_def Let_def split: prod.splits)
  qed
qed


lemma rune_bytes:
  "list_all (\<lambda>(r, bs). r < 128 \<and> bs = [char_of r] \<or> 128 \<le> r \<and> (\<forall>c\<in>set bs. 128 \<le> byte_of c)) (runes s)"
proof (induction s rule: runes.induct)
  case (1 s)
  show ?case
  proof (cases "s = []")
    case False
    then have IH: "list_all (\<lambda>(r, bs). r < 128 \<and> bs = [char_of r] \<or> 128 \<le> r \<and> (\<forall>c\<in>set bs. 128 \<le> byte_of c))
        (runes (drop (snd (DecodeRune s)) s))" using 1 by simp
    from False show ?thesis
    proof (cases rule: DecodeRune_cases)
      case (ascii c cs)
      then show ?thesis using IH runes_step [OF False ascii(3)] by (simp add: byte_of_def)
    next
      case (invalid c cs)
      then show ?thesis using IH runes_step [OF False invalid(3)] by (simp add: RuneError_def)
    next
      case (multi r w)
      then show ?thesis using IH runes_step [OF False multi(1)] by simp
    qed
  qed simp
qed

lemma byte_of_quotes [simp]: "byte_of quote = 39" "byte_of dquote = 34"
  by (simp_all add: byte_of_def quote_def dquote_def)

lemma byte_of_inj: "byte_of c = byte_of d \<Longrightarrow> c = d"
  by (simp add: byte_of_def)

lemma replacement_bytes: "c \<in> set replacement \<Longrightarrow> 128 \<le> byte_of c"
  by (auto simp: replacement_def byte_of_def)

lemma char_of_quotes [simp]: "char_of (34::nat) = dquote" "char_of (39::nat) = quote"
  by code_simp+

lemma rune_dquote:
  assumes "(r, bs) \<in> set (runes s)"
  shows "r = 34 \<Longrightarrow> WriteRune (r, bs) = [dquote]" "r \<noteq> 34 \<Longrightarrow> dquote \<notin> set (WriteRune (r, bs))"
proof -
  have b: "r < 128 \<and> bs = [char_of r] \<or> 128 \<le> r \<and> (\<forall>c\<in>set bs. 128 \<le> byte_of c)"
    using rune_bytes [of s] assms by (auto simp: list_all_iff)
  show "r = 34 \<Longrightarrow> WriteRune (r, bs) = [dquote]" using b by (auto simp: RuneError_def)
  show "dquote \<notin> set (WriteRune (r, bs))" if "r \<noteq> 34"
  proof
    assume d: "dquote \<in> set (WriteRune (r, bs))"
    then have "dquote \<in> set bs" using replacement_bytes [of dquote] by (auto split: if_splits)
    then have "r < 128" "char_of r = dquote" using b by auto
    then have "byte_of (char_of r) = 34" by simp
    then show False using \<open>r < 128\<close> that by (simp add: byte_of_def)
  qed
qed

section \<open>Identifiers are quoted once and for all\<close>

lemma unquote_loop_plain:
  "dquote \<notin> set bs \<Longrightarrow> unquote_loop (bs @ cs) = map_option ((@) bs) (unquote_loop cs)"
proof (induction bs)
  case Nil
  then show ?case by (cases "unquote_loop cs") simp_all
next
  case (Cons b bs)
  then show ?case
    by (cases "bs @ cs"; cases "unquote_loop cs") auto
qed

lemma unquote_loop_quoted:
  assumes "\<forall>(r, bs) \<in> set rs. (r = 34 \<longrightarrow> WriteRune (r, bs) = [dquote]) \<and>
    (r \<noteq> 34 \<longrightarrow> dquote \<notin> set (WriteRune (r, bs)))"
  shows "unquote_loop (concat (map (\<lambda>r. if fst r = 34 then [dquote, dquote] else WriteRune r) rs)) =
    Some (concat (map WriteRune rs))"
  using assms
proof (induction rs)
  case (Cons a rs)
  obtain r bs where a: "a = (r, bs)" by fastforce
  show ?case
  proof (cases "r = 34")
    case True
    then have "WriteRune a = [dquote]" using Cons.prems a by auto
    then show ?thesis using Cons True a by simp
  next
    case False
    then have "dquote \<notin> set (WriteRune a)" using Cons.prems a by auto
    then show ?thesis using Cons False a by (simp add: unquote_loop_plain)
  qed
qed simp

lemma is_quoted_wrap [simp]: "is_quoted (dquote # s @ [dquote])"
  by (simp add: is_quoted_def)

lemma Unquote_Quote: "UnquotePostgresIdentifier (QuotePostgresIdentifier s) = Inr (ToValidUTF8 s)"
proof -
  have "\<forall>(r, bs) \<in> set (runes s). (r = 34 \<longrightarrow> WriteRune (r, bs) = [dquote]) \<and>
      (r \<noteq> 34 \<longrightarrow> dquote \<notin> set (WriteRune (r, bs)))"
    using rune_dquote by blast
  from unquote_loop_quoted [OF this] show ?thesis
    by (simp add: UnquotePostgresIdentifier_def QuotePostgresIdentifier_def ToValidUTF8_def butlast_append)
qed

text \<open>Unquoting a quoted identifier gives the identifier back when it is valid UTF-8.\<close>

theorem identifier_roundtrip:
  assumes "valid_utf8 s"
  shows "UnquotePostgresIdentifier (QuotePostgresIdentifier s) = Inr s"
  using assms by (simp add: Unquote_Quote ToValidUTF8_valid)

theorem identifier_roundtrip_witness:
  "UnquotePostgresIdentifier (QuotePostgresIdentifier (''a'' @ [dquote] @ ''b'')) = Inr (''a'' @ [dquote] @ ''b'')"
  by (rule identifier_roundtrip) code_simp

text \<open>C28. Whatever the normalisation of an identifier returns is exactly one quoted identifier:
  nothing of the name escapes the quotes, for every name and every classification of runes.\<close>

theorem normalized_identifier_quoted:
  assumes "NormalizePostgresIdentifier letter digit lower name = Inr q"
  shows "\<exists>s. UnquotePostgresIdentifier q = Inr s"
proof (cases "is_quoted name")
  case True
  then have "q = name" "unquote_loop (butlast (tl name)) \<noteq> None"
    using assms by (auto simp: NormalizePostgresIdentifier_def Let_def split: if_splits option.splits)
  then show ?thesis using True by (auto simp: UnquotePostgresIdentifier_def)
next
  case False
  then have "q = QuotePostgresIdentifier (lower name)"
    using assms by (auto simp: NormalizePostgresIdentifier_def split: if_splits option.splits)
  then show ?thesis by (simp add: Unquote_Quote)
qed

theorem normalized_identifier_quoted_witness:
  "\<exists>s. UnquotePostgresIdentifier (dquote # ''t1'' @ [dquote]) = Inr s"
proof -
  have "NormalizePostgresIdentifier (\<lambda>r. 97 \<le> r \<and> r \<le> 122) (\<lambda>r. 48 \<le> r \<and> r \<le> 57) (\<lambda>s. s) ''t1''
      = Inr (dquote # ''t1'' @ [dquote])" by code_simp
  then show ?thesis by (rule normalized_identifier_quoted)
qed

section \<open>Arguments are inert\<close>

lemma rune_at_drop: "drop (pos l) (src l) = t \<Longrightarrow> rune_at l = DecodeRune t"
  by (simp add: rune_at_def)

lemma DecodeRune_ascii: "byte_of c < 128 \<Longrightarrow> DecodeRune (c # cs) = (byte_of c, 1)"
  by (auto simp: DecodeRune_def rune_size_def Let_def split: prod.split)

declare lex_run.simps(2) [simp del]

lemma lex_run_step: "lex_step st l = (st', l') \<Longrightarrow> lex_run (Some st) l = lex_run st' l'"
  by (simp add: lex_run.simps(2))

lemma advance_advance [simp]: "advance v (advance w l) = advance (w + v) l"
  by (simp add: advance_def add.assoc)

lemma advance_0 [simp]: "advance 0 l = l"
  by (simp add: advance_def)

lemma drop_advance: "drop (pos l) (src l) = t \<Longrightarrow> drop (pos (advance w l)) (src (advance w l)) = drop w t"
  by (auto simp: add.commute)

lemma valid_utf8_drop:
  "valid_utf8 s \<Longrightarrow> s \<noteq> [] \<Longrightarrow> DecodeRune s = (r, w) \<Longrightarrow> valid_utf8 (drop w s)"
  by (simp add: valid_utf8_def runes_step)

lemma valid_utf8_first:
  "valid_utf8 s \<Longrightarrow> s \<noteq> [] \<Longrightarrow> DecodeRune s = (r, w) \<Longrightarrow> r = RuneError \<Longrightarrow> take w s = replacement"
  by (simp add: valid_utf8_def runes_step)

lemma valid_utf8_width:
  assumes "valid_utf8 s" "s \<noteq> []" "DecodeRune s = (r, w)" "r = RuneError"
  shows "w = replacementcharacterwidth"
  using assms(2)
proof (cases rule: DecodeRune_cases)
  case (ascii c cs)
  then show ?thesis using assms by (simp add: RuneError_def)
next
  case (invalid c cs)
  then have "w = 1" using assms(3) by simp
  then show ?thesis using valid_utf8_first [OF assms] invalid(1) by (simp add: replacement_def)
next
  case (multi r' w')
  then have "length (take w s) = w" using assms(3) by simp
  then show ?thesis
    using valid_utf8_first [OF assms] by (simp add: replacement_def replacementcharacterwidth_def)
qed

lemma double_char_append: "double_char q (xs @ ys) = double_char q xs @ double_char q ys"
  by (induction xs) auto

lemma double_char_other: "q \<notin> set xs \<Longrightarrow> double_char q xs = xs"
  by (induction xs) auto

text \<open>Inside quotes, the doubled text is read up to the closing quote.\<close>

lemma singleQuote_run:
  assumes "valid_utf8 s" "drop (pos l) (src l) = double_char quote s @ quote # CHR '' '' # rest"
  shows "lex_run (Some SingleQuoteState) l =
    lex_run (Some RawState) (advance (length (double_char quote s) + 1) l)"
  using assms
proof (induction s arbitrary: l rule: runes.induct)
  case (1 s)
  let ?t = "quote # CHR '' '' # rest"
  show ?case
  proof (cases "s = []")
    case True
    then have d: "drop (pos l) (src l) = ?t" using 1 by simp
    have "rune_at l = (39, 1)" using rune_at_drop [OF d] by (simp add: DecodeRune_ascii)
    moreover have "rune_at (advance 1 l) = (32, 1)"
      using rune_at_drop [OF drop_advance [OF d, of 1]]
      by (simp add: DecodeRune_ascii byte_of_def)
    ultimately have "lex_step SingleQuoteState l = (Some RawState, advance 1 l)"
      by (simp add: singleQuoteState_def)
    then show ?thesis using True by (simp add: lex_run_step)
  next
    case False
    obtain r w where rw: "DecodeRune s = (r, w)" by fastforce
    have IH: "lex_run (Some SingleQuoteState) l' =
        lex_run (Some RawState) (advance (length (double_char quote (drop w s)) + 1) l')"
      if "drop (pos l') (src l') = double_char quote (drop w s) @ ?t" for l'
      using "1.IH" [OF False, of l'] rw that valid_utf8_drop [OF "1.prems"(1) False rw] by simp
    from False show ?thesis
    proof (cases rule: DecodeRune_cases)
      case (ascii c cs)
      then have w: "w = 1" "r = byte_of c" using rw by simp_all
      show ?thesis
      proof (cases "c = quote")
        case True
        have d: "drop (pos l) (src l) = quote # quote # double_char quote cs @ ?t"
          using 1 ascii True by simp
        have "rune_at l = (39, 1)" using rune_at_drop [OF d] by (simp add: DecodeRune_ascii)
        moreover have "rune_at (advance 1 l) = (39, 1)"
          using rune_at_drop [OF drop_advance [OF d, of 1]] by (simp add: DecodeRune_ascii)
        ultimately have "lex_step SingleQuoteState l = (Some SingleQuoteState, advance 2 l)"
          by (simp add: singleQuoteState_def)
        then show ?thesis
          using drop_advance [OF d, of 2] ascii True w
          by (simp add: lex_run_step IH)
      next
        case neq: False
        then have "byte_of c \<noteq> 39" using byte_of_inj [of c quote] by auto
        have d: "drop (pos l) (src l) = c # double_char quote cs @ ?t"
          using 1 ascii neq by simp
        have "rune_at l = (byte_of c, 1)" using rune_at_drop [OF d] ascii by (simp add: DecodeRune_ascii)
        then have "lex_step SingleQuoteState l = (Some SingleQuoteState, advance 1 l)"
          using \<open>byte_of c \<noteq> 39\<close> ascii(2) by (simp add: singleQuoteState_def RuneError_def split: prod.split)
        then show ?thesis
          using drop_advance [OF d, of 1] ascii neq w by (simp add: lex_run_step IH)
      qed
    next
      case (invalid c cs)
      then show ?thesis using valid_utf8_width [OF "1.prems"(1) False rw] rw
        by (simp add: replacementcharacterwidth_def)
    next
      case (multi r' w')
      then have m: "2 \<le> w" "w \<le> length s" "128 \<le> r" "quote \<notin> set (take w s)" using rw by auto
      have e: "double_char quote s = take w s @ double_char quote (drop w s)"
        using double_char_append [of quote "take w s" "drop w s"] m(4) by (simp add: double_char_other)
      then have d: "drop (pos l) (src l) = take w s @ double_char quote (drop w s) @ ?t"
        using 1 by simp
      have "rune_at l = (r, w)"
        using rune_at_drop [OF d] DecodeRune_prefix [OF rw False] m(1) by simp
      then have "lex_step SingleQuoteState l = (Some SingleQuoteState, advance w l)"
        using m(3) valid_utf8_width [OF "1.prems"(1) False rw]
        by (simp add: singleQuoteState_def Let_def rune_error_def split: prod.split)
      then show ?thesis
        using drop_advance [OF d, of w] m(2) by (simp add: lex_run_step IH e)
    qed
  qed
qed

text \<open>Text outside quotes that opens no string, comment or placeholder.\<close>

fun inert :: "string \<Rightarrow> bool" where
  "inert [] = True"
| "inert (c # cs) \<longleftrightarrow>
     byte_of c < 128 \<and> byte_of c \<notin> {39, 34, 36, 47} \<and>
     (byte_of c \<in> {101, 69, 45} \<longrightarrow> cs = [] \<or> byte_of (hd cs) < 128 \<and> byte_of (hd cs) \<notin> {39, 45}) \<and>
     inert cs"

lemma raw_run:
  assumes "inert t" "drop (pos l) (src l) = t @ CHR '' '' # rest"
  shows "lex_run (Some RawState) l = lex_run (Some RawState) (advance (length t) l)"
  using assms
proof (induction t arbitrary: l)
  case (Cons c cs)
  then have d: "drop (pos l) (src l) = c # cs @ CHR '' '' # rest" by simp
  have r: "rune_at l = (byte_of c, 1)" using rune_at_drop [OF d] Cons.prems(1) by (simp add: DecodeRune_ascii)
  have d1: "drop (pos (advance 1 l)) (src (advance 1 l)) = cs @ CHR '' '' # rest"
    using drop_advance [OF d, of 1] by simp
  have next_ok: "fst (rune_at (advance 1 l)) \<notin> {39, 45}" if "byte_of c \<in> {101, 69, 45}"
  proof (cases cs)
    case Nil
    then show ?thesis using rune_at_drop [OF d1] by (simp add: DecodeRune_ascii byte_of_def)
  next
    case (Cons a list)
    then have "byte_of a < 128" "byte_of a \<notin> {39, 45}" using that Cons.prems(1) \<open>inert (c # cs)\<close> by auto
    then show ?thesis using rune_at_drop [OF d1] Cons by (simp add: DecodeRune_ascii)
  qed
  have "lex_step RawState l = (Some RawState, advance 1 l)"
    using Cons.prems(1) r next_ok
    by (auto simp: rawState_def Let_def RuneError_def split: prod.split)
  then show ?case using Cons.IH [OF _ d1] Cons.prems(1) by (simp add: lex_run_step)
qed simp

lemma quoted_run:
  assumes "valid_utf8 s" "drop (pos l) (src l) = quoteString s @ CHR '' '' # rest"
  shows "lex_run (Some RawState) l = lex_run (Some RawState) (advance (length (quoteString s)) l)"
proof -
  have d: "drop (pos l) (src l) = quote # double_char quote s @ quote # CHR '' '' # rest"
    using assms(2) by (simp add: quoteString_def)
  have "rune_at l = (39, 1)" using rune_at_drop [OF d] by (simp add: DecodeRune_ascii)
  then have "lex_step RawState l = (Some SingleQuoteState, advance 1 l)"
    by (simp add: rawState_def split: prod.split)
  then have "lex_run (Some RawState) l = lex_run (Some SingleQuoteState) (advance 1 l)"
    by (rule lex_run_step)
  also have "\<dots> = lex_run (Some RawState) (advance (length (double_char quote s) + 1) (advance 1 l))"
    using singleQuote_run [OF assms(1)] drop_advance [OF d, of 1] by simp
  finally show ?thesis by (simp add: quoteString_def)
qed

lemma inert_digits: "list_all is_digit ds \<Longrightarrow> inert ds"
  by (induction ds) (auto simp: is_digit_def byte_of_def)

lemma inert_dec_int: "inert (dec_int k)"
proof -
  have digits: "list_all is_digit (dec_nat n)" "dec_nat n \<noteq> []" for n using dec_nat_digits [of n] by simp_all
  then have "inert (dec_nat n)" for n by (simp add: inert_digits)
  moreover have "byte_of (hd (dec_nat n)) < 128 \<and> byte_of (hd (dec_nat n)) \<notin> {39, 45}" for n
    using digits [of n] by (cases "dec_nat n") (auto simp: is_digit_def byte_of_def)
  ultimately show ?thesis by (simp add: dec_int_def byte_of_def)
qed

lemma hex_text:
  "list_all (\<lambda>c. byte_of c < 128 \<and> c \<noteq> quote) (hex_EncodeToString bs)"
proof -
  have "byte_of (hex_digit d) < 128 \<and> hex_digit d \<noteq> quote" if "d < 16" for d
  proof -
    have "byte_of (hex_digit d) = (if d < 10 then 48 + d else 87 + d)"
      using that by (simp add: hex_digit_def byte_of_def)
    then show ?thesis using that by (auto dest: arg_cong [of _ _ byte_of] split: if_splits)
  qed
  moreover have "byte_of c div 16 < 16" "byte_of c mod 16 < 16" for c
    by (simp_all add: byte_of_def less_mult_imp_div_less)
  ultimately show ?thesis by (auto simp: hex_EncodeToString_def list_all_iff)
qed

lemma valid_utf8_ascii: "list_all (\<lambda>c. byte_of c < 128) s \<Longrightarrow> valid_utf8 s"
proof (induction s)
  case (Cons c s)
  then show ?case
    using runes_step [of "c # s" "byte_of c" 1]
    by (simp add: DecodeRune_ascii valid_utf8_def RuneError_def)
qed (simp add: valid_utf8_def)

lemma quoteBytes_string:
  "quoteBytes bs = quoteString (CHR 0x5C # CHR ''x'' # hex_EncodeToString bs)"
  "valid_utf8 (CHR 0x5C # CHR ''x'' # hex_EncodeToString bs)"
proof -
  have "quote \<notin> set (hex_EncodeToString bs)" using hex_text [of bs] by (auto simp: list_all_iff)
  then show "quoteBytes bs = quoteString (CHR 0x5C # CHR ''x'' # hex_EncodeToString bs)"
    by (simp add: quoteBytes_def quoteString_def double_char_other quote_def)
  show "valid_utf8 (CHR 0x5C # CHR ''x'' # hex_EncodeToString bs)"
    using hex_text [of bs] by (intro valid_utf8_ascii) (auto simp: list_all_iff byte_of_def)
qed

text \<open>Arguments whose text is modelled in full: all but floating-point numbers and times.\<close>

fun plain_arg :: "arg \<Rightarrow> bool" where
  "plain_arg (ArgString s) = valid_utf8 s"
| "plain_arg (ArgFloat64 f) = False"
| "plain_arg (ArgTime t) = False"
| "plain_arg a = True"



section \<open>The lexer loses nothing\<close>

text \<open>
  \<open>spells ps s\<close>: the parts spell the string, each placeholder as a dollar sign and the
  digits it was read from.
\<close>

definition digits_num :: "string \<Rightarrow> int64" where
  "digits_num ds = foldl (\<lambda>num c. num * 10 + word_of_nat (byte_of c - 48)) 0 ds"

inductive spells :: "part list \<Rightarrow> string \<Rightarrow> bool" where
  spells_Nil: "spells [] []"
| spells_Raw: "spells ps s \<Longrightarrow> spells (ps @ [RawPart t]) (s @ t)"
| spells_Arg: "spells ps s \<Longrightarrow> ds \<noteq> [] \<Longrightarrow> list_all is_digit ds \<Longrightarrow>
    spells (ps @ [ArgPart (digits_num ds)]) (s @ CHR ''$'' # ds)"

text \<open>
  What holds before every turn: the parts spell the source up to \<open>start\<close>, and in the
  placeholder state up to the dollar sign, with the digits read so far behind it.
\<close>

fun lex_inv :: "stateFn \<Rightarrow> sqlLexer \<Rightarrow> bool" where
  "lex_inv (PlaceholderState num) l \<longleftrightarrow>
     (\<exists>pre ds. src l = pre @ CHR ''$'' # ds @ drop (pos l) (src l) \<and> pos l = length pre + 1 + length ds \<and>
        spells (parts l) pre \<and> list_all is_digit ds \<and> num = digits_num ds \<and>
        (ds = [] \<longrightarrow> (\<exists>d rest. drop (pos l) (src l) = d # rest \<and> is_digit d)))"
| "lex_inv st l \<longleftrightarrow> start l \<le> pos l \<and> pos l \<le> length (src l) \<and> spells (parts l) (take (start l) (src l))"

lemma spells_slice:
  assumes "spells ps (take a s)" "a \<le> b" "b \<le> length s"
  shows "spells (ps @ [RawPart (slice s a b)]) (take b s)"
proof -
  have "take b s = take a s @ slice s a b"
    using assms(2) take_add [of a "b - a" s] by (simp add: slice_def)
  then show ?thesis using spells_Raw [OF assms(1)] by simp
qed

lemma rune_at_bounds:
  assumes "pos l \<le> length (src l)" "rune_at l = (r, w)"
  shows "pos l + w \<le> length (src l)"
proof (cases "drop (pos l) (src l) = []")
  case True
  then show ?thesis using assms by (simp add: rune_at_def DecodeRune_def)
next
  case False
  then have "snd (rune_at l) \<le> length (drop (pos l) (src l))"
    unfolding rune_at_def by (cases rule: DecodeRune_cases) auto
  then show ?thesis using assms by simp
qed

lemma rune_at_ascii:
  assumes "rune_at l = (r, w)" "r < 128"
  shows "w = 1 \<and> (\<exists>rest. drop (pos l) (src l) = char_of r # rest)"
proof (cases "drop (pos l) (src l) = []")
  case True
  then show ?thesis using assms by (simp add: rune_at_def DecodeRune_def RuneError_def)
next
  case False
  then show ?thesis
    using assms unfolding rune_at_def
    by (cases rule: DecodeRune_cases) (auto simp: RuneError_def byte_of_def)
qed

definition valid_rest :: "sqlLexer \<Rightarrow> bool" where
  "valid_rest l \<longleftrightarrow> valid_utf8 (drop (pos l) (src l))"

lemma valid_rest_advance:
  assumes "valid_rest l" "rune_at l = (r, w)"
  shows "valid_rest (advance w l)"
proof (cases "drop (pos l) (src l) = []")
  case True
  then show ?thesis using assms by (simp add: valid_rest_def rune_at_def DecodeRune_def)
next
  case False
  then show ?thesis
    using valid_utf8_drop [OF _ False] assms by (simp add: valid_rest_def rune_at_def add.commute)
qed

lemma valid_rest_end:
  assumes "valid_rest l" "rune_at l = (RuneError, w)" "w \<noteq> replacementcharacterwidth"
  shows "w = 0 \<and> length (src l) \<le> pos l"
proof (cases "drop (pos l) (src l) = []")
  case True
  then show ?thesis using assms by (simp add: rune_at_def DecodeRune_def)
next
  case False
  then show ?thesis
    using valid_utf8_width [OF _ False] assms by (simp add: valid_rest_def rune_at_def)
qed

definition quiet :: "sqlLexer \<Rightarrow> sqlLexer \<Rightarrow> bool" where
  "quiet l l' \<longleftrightarrow> src l' = src l \<and> start l' = start l \<and> parts l' = parts l \<and> pos l \<le> pos l' \<and>
     pos l' \<le> length (src l) \<and> (valid_rest l \<longrightarrow> valid_rest l')"

lemma quiet_advance:
  assumes "pos l \<le> length (src l)" "rune_at l = (r, w)" "rune_at (advance w l) = (r', w')"
  shows "quiet l (advance w l)" "quiet l (advance (w + w') l)"
  using assms rune_at_bounds [OF assms(1,2)] rune_at_bounds [of "advance w l" r' w']
    valid_rest_advance [OF _ assms(2)] valid_rest_advance [of "advance w l" r' w']
  by (auto simp: quiet_def add.assoc)

lemma quiet_nested: "quiet l l' \<Longrightarrow> quiet l (l'\<lparr>nested := n\<rparr>)"
  by (auto simp: quiet_def valid_rest_def)

definition stops :: "sqlLexer \<Rightarrow> sqlLexer \<Rightarrow> bool" where
  "stops l l' \<longleftrightarrow> (\<exists>w. rune_at l = (RuneError, w) \<and> w \<noteq> replacementcharacterwidth \<and>
     pos l' = pos l + w \<and> src l' = src l \<and>
     parts l' = (if start l < pos l + w then parts l @ [RawPart (slice (src l) (start l) (pos l + w))] else parts l))"

definition opens :: "sqlLexer \<Rightarrow> sqlLexer \<Rightarrow> bool" where
  "opens l l' \<longleftrightarrow> (\<exists>d rest. drop (pos l) (src l) = CHR ''$'' # d # rest \<and> is_digit d) \<and>
     l' = l\<lparr>parts := parts l @ [RawPart (slice (src l) (start l) (pos l))], start := pos l + 1, pos := pos l + 1\<rparr>"

lemma lex_step_shape:
  assumes "lex_step st l = (st', l')" "\<forall>num. st \<noteq> PlaceholderState num"
    and "start l \<le> pos l" "pos l \<le> length (src l)"
  shows "(\<exists>st2. st' = Some st2 \<and> (\<forall>num. st2 \<noteq> PlaceholderState num) \<and> quiet l l') \<or>
    st' = None \<and> stops l l' \<or> st' = Some (PlaceholderState 0) \<and> opens l l'"
proof -
  obtain r w where rw: "rune_at l = (r, w)" by fastforce
  obtain r' w' where rw': "rune_at (advance w l) = (r', w')" by fastforce
  note q = quiet_advance [OF assms(4) rw rw'] quiet_nested [OF quiet_advance(2) [OF assms(4) rw rw']]
  show ?thesis
  proof (cases "r = RuneError \<and> w \<noteq> replacementcharacterwidth")
    case True
    then have "st' = None \<and> stops l l'"
      using assms rw rw'
      by (cases st)
        (auto simp: lex_defs Let_def rune_error_def stops_def RuneError_def split: if_splits)
    then show ?thesis by simp
  next
    case False
    show ?thesis
    proof (cases "st = RawState \<and> r = 36 \<and> 48 \<le> r' \<and> r' \<le> 57")
      case True
      have w: "w = 1" and d: "\<exists>rest. drop (pos l) (src l) = char_of (36::nat) # rest"
        using rune_at_ascii [OF rw] True by auto
      have d': "\<exists>rest. drop (pos (advance w l)) (src (advance w l)) = char_of r' # rest"
        using rune_at_ascii [OF rw'] True by auto
      have "char_of (36::nat) = CHR ''$''" by code_simp
      moreover have "is_digit (char_of r')" using True by (simp add: is_digit_def)
      moreover obtain rest where "drop (pos l) (src l) = char_of (36::nat) # char_of r' # rest"
        using d d' w drop_advance [of l _ 1] by fastforce
      ultimately have "opens l l' \<and> st' = Some (PlaceholderState 0)"
        using assms True rw rw' w by (auto simp: rawState_def opens_def advance_def)
      then show ?thesis by simp
    next
      case F2: False
      have "\<exists>st2. st' = Some st2 \<and> (\<forall>num. st2 \<noteq> PlaceholderState num) \<and> quiet l l'"
        using assms False F2 rw rw' q
        by (cases st) (auto simp: lex_defs Let_def rune_error_def split: if_splits)
      then show ?thesis by simp
    qed
  qed
qed

lemma lex_inv_other:
  "\<forall>num. st \<noteq> PlaceholderState num \<Longrightarrow>
     lex_inv st l \<longleftrightarrow> start l \<le> pos l \<and> pos l \<le> length (src l) \<and> spells (parts l) (take (start l) (src l))"
  by (cases st) auto

lemma digits_num_snoc: "digits_num (ds @ [c]) = digits_num ds * 10 + word_of_nat (byte_of c - 48)"
  by (simp add: digits_num_def)

lemma placeholder_step:
  assumes inv: "lex_inv (PlaceholderState num) l" and step: "placeholderState num l = (st', l')"
  shows "\<exists>st2. st' = Some st2 \<and> lex_inv st2 l' \<and> src l' = src l \<and> (valid_rest l \<longrightarrow> valid_rest l')"
proof -
  obtain pre ds where src: "src l = pre @ CHR ''$'' # ds @ drop (pos l) (src l)"
    and pos: "pos l = length pre + 1 + length ds" and sp: "spells (parts l) pre"
    and ds: "list_all is_digit ds" "num = digits_num ds"
    and more: "ds = [] \<longrightarrow> (\<exists>d rest. drop (pos l) (src l) = d # rest \<and> is_digit d)"
    using inv unfolding lex_inv.simps by blast
  obtain r w where rw: "rune_at l = (r, w)" by fastforce
  show ?thesis
  proof (cases "48 \<le> r \<and> r \<le> 57")
    case True
    then obtain rest where w: "w = 1" and d: "drop (pos l) (src l) = char_of r # rest"
      using rune_at_ascii [OF rw] by auto
    have b: "byte_of (char_of r) = r" using True by (simp add: byte_of_def)
    have l': "st' = Some (PlaceholderState (num * 10 + word_of_nat (r - 48)))" "l' = advance 1 l"
      using step True rw w by (simp_all add: placeholderState_def)
    have "drop (pos l + 1) (src l) = rest" using drop_advance [OF d, of 1] by simp
    then have "src l = pre @ CHR ''$'' # (ds @ [char_of r]) @ drop (pos l + 1) (src l)"
      using src d by simp
    moreover have "list_all is_digit (ds @ [char_of r])" using ds(1) True by (simp add: is_digit_def)
    moreover have "num * 10 + word_of_nat (r - 48) = digits_num (ds @ [char_of r])"
      by (simp add: digits_num_snoc ds(2) b)
    ultimately have "lex_inv (PlaceholderState (num * 10 + word_of_nat (r - 48))) (advance 1 l)"
      unfolding lex_inv.simps using pos sp
      by (intro exI [of _ pre] exI [of _ "ds @ [char_of r]"]) simp
    then show ?thesis using l' valid_rest_advance [OF _ rw] w by simp
  next
    case False
    have "ds \<noteq> []"
    proof
      assume "ds = []"
      then obtain d rest where d: "drop (pos l) (src l) = d # rest" "is_digit d" using more by blast
      then have "byte_of d < 128" "48 \<le> byte_of d" "byte_of d \<le> 57" by (auto simp: is_digit_def byte_of_def)
      then show False using False rune_at_drop [OF d(1)] rw by (simp add: DecodeRune_ascii)
    qed
    then have "spells (parts l @ [ArgPart num]) (pre @ CHR ''$'' # ds)"
      using sp ds by (auto intro: spells_Arg)
    moreover have "take (pos l) (src l) = pre @ CHR ''$'' # ds"
      by (subst src) (simp add: pos)
    moreover have "pos l \<le> length (src l)" by (subst src) (simp add: pos)
    moreover have "st' = Some RawState" "src l' = src l" "pos l' = pos l" "start l' = pos l"
      "parts l' = parts l @ [ArgPart num]"
      using step False rw by (auto simp: placeholderState_def)
    ultimately show ?thesis by (simp add: valid_rest_def)
  qed
qed

lemma lex_run_spells:
  assumes "lex_inv st l"
  shows "src (lex_run (Some st) l) = src l \<and>
    spells (parts (lex_run (Some st) l)) (take (pos (lex_run (Some st) l)) (src l)) \<and>
    (valid_rest l \<longrightarrow> length (src l) \<le> pos (lex_run (Some st) l))"
  using assms
proof (induction "lex_measure st l" arbitrary: st l rule: less_induct)
  case less
  obtain st' l' where step: "lex_step st l = (st', l')" by fastforce
  have run: "lex_run (Some st) l = lex_run st' l'" using step by (rule lex_run_step)
  have go: ?case if "st' = Some st2" "lex_inv st2 l'" "src l' = src l" "valid_rest l \<longrightarrow> valid_rest l'" for st2
    using less.hyps [of st2 l'] lex_step_measure [of st l st2 l'] step that run by auto
  show ?case
  proof (cases "\<exists>num. st = PlaceholderState num")
    case True
    then obtain num where "lex_inv (PlaceholderState num) l" "placeholderState num l = (st', l')"
      using less.prems step by auto
    from placeholder_step [OF this] obtain st2 where
      "st' = Some st2" "lex_inv st2 l'" "src l' = src l" "valid_rest l \<longrightarrow> valid_rest l'" by blast
    then show ?thesis by (rule go)
  next
    case False
    then have inv: "start l \<le> pos l" "pos l \<le> length (src l)" "spells (parts l) (take (start l) (src l))"
      using less.prems lex_inv_other by auto
    from lex_step_shape [OF step _ inv(1,2)] False
    consider (quiet) st2 where "st' = Some st2" "\<forall>num. st2 \<noteq> PlaceholderState num" "quiet l l'"
      | (stops) "st' = None" "stops l l'" | (opens) "st' = Some (PlaceholderState 0)" "opens l l'" by blast
    then show ?thesis
    proof cases
      case quiet
      then have "lex_inv st2 l'" using inv lex_inv_other [of st2 l'] by (auto simp: quiet_def)
      then show ?thesis using go quiet by (simp add: quiet_def)
    next
      case stops
      then obtain w where w: "rune_at l = (RuneError, w)" "w \<noteq> replacementcharacterwidth" "pos l' = pos l + w"
        "src l' = src l" "parts l' = (if start l < pos l + w
          then parts l @ [RawPart (slice (src l) (start l) (pos l + w))] else parts l)"
        by (auto simp: stops_def)
      have "spells (parts l') (take (pos l') (src l))"
      proof (cases "start l < pos l + w")
        case True
        then show ?thesis
          using spells_slice [OF inv(3), of "pos l + w"] rune_at_bounds [OF inv(2) w(1)] w(3,5) by simp
      next
        case False
        then have "pos l + w = start l" using inv(1) by linarith
        then show ?thesis using False inv(3) w(3,5) by simp
      qed
      then show ?thesis using run stops(1) w valid_rest_end [OF _ w(1,2)] by auto
    next
      case opens
      then obtain d rest where d: "drop (pos l) (src l) = CHR ''$'' # d # rest" "is_digit d"
        and l': "l' = l\<lparr>parts := parts l @ [RawPart (slice (src l) (start l) (pos l))],
          start := pos l + 1, pos := pos l + 1\<rparr>"
        by (auto simp: opens_def)
      have r: "rune_at l = (36, 1)" using rune_at_drop [OF d(1)] by (simp add: DecodeRune_ascii byte_of_def)
      have d1: "drop (pos l + 1) (src l) = d # rest" using drop_advance [OF d(1), of 1] by simp
      have "src l = take (pos l) (src l) @ CHR ''$'' # drop (pos l + 1) (src l)"
        using d(1) d1 append_take_drop_id [of "pos l" "src l"] by simp
      moreover have "spells (parts l') (take (pos l) (src l))"
        using spells_slice [OF inv(3,1,2)] l' by simp
      ultimately have "lex_inv (PlaceholderState 0) l'"
        unfolding lex_inv.simps using d(2) d1 inv(2) l'
        by (intro exI [of _ "take (pos l) (src l)"] exI [of _ "[]"]) (simp add: digits_num_def)
      moreover have "valid_rest l \<longrightarrow> valid_rest l'"
        using valid_rest_advance [OF _ r] l' by (auto simp: valid_rest_def)
      ultimately show ?thesis using go opens(1) l' by simp
    qed
  qed
qed

text \<open>C11. The parts of a query spell the query: in valid UTF-8 nothing is lost, added or
  reordered, whatever strings, identifiers and comments it contains.\<close>

theorem NewQuery_lossless:
  assumes "valid_utf8 sql"
  shows "spells (NewQuery sql) sql"
  using lex_run_spells [of RawState "\<lparr>src = sql, start = 0, pos = 0, nested = 0, parts = []\<rparr>"] assms spells_Nil
  by (auto simp: NewQuery_def valid_rest_def)

theorem NewQuery_lossless_witness: "spells [RawPart ''a = '', ArgPart 12, RawPart '' or b''] ''a = $12 or b''"
proof -
  have "NewQuery ''a = $12 or b'' = [RawPart ''a = '', ArgPart 12, RawPart '' or b'']" by code_simp
  moreover have "spells (NewQuery ''a = $12 or b'') ''a = $12 or b''"
    by (rule NewQuery_lossless) code_simp
  ultimately show ?thesis by simp
qed

text \<open>
  Outside valid UTF-8 the lexer stops at the first byte it cannot decode, and the rest of the
  query is dropped without an error.
\<close>

lemma NewQuery_truncates: "NewQuery (''drop table a'' @ [CHR 0xFF] @ ''b'') = [RawPart (''drop table a'' @ [CHR 0xFF])]"
  by code_simp

section \<open>What Sanitize returns\<close>

definition arg_index :: "int64 \<Rightarrow> nat" where
  "arg_index n = nat (sint (n - 1))"

definition good_placeholder ::
  "(int64 \<Rightarrow> string) \<Rightarrow> (int \<Rightarrow> string) \<Rightarrow> arg list \<Rightarrow> int64 \<Rightarrow> bool" where
  "good_placeholder ff ft args n \<longleftrightarrow> 0 \<le> sint (n - 1) \<and> arg_index n < length args \<and>
     (\<forall>e. arg_string ff ft (args ! arg_index n) \<noteq> Inl e)"

fun render :: "(int64 \<Rightarrow> string) \<Rightarrow> (int \<Rightarrow> string) \<Rightarrow> arg list \<Rightarrow> part \<Rightarrow> string" where
  "render ff ft args (RawPart s) = s"
| "render ff ft args (ArgPart n) =
     (case arg_string ff ft (args ! arg_index n) of Inr str \<Rightarrow> '' '' @ str @ '' '' | Inl e \<Rightarrow> [])"

lemma case_Inr_iff:
  "(case m of Inl e \<Rightarrow> Inl e | Inr (u, t) \<Rightarrow> Inr (u, f t)) = Inr (u', out) \<longleftrightarrow>
     (\<exists>t. m = Inr (u', t) \<and> out = f t)"
  by (auto split: sum.splits)

lemma sanitize_parts_iff:
  "sanitize_parts ff ft args used ps = Inr (used', out) \<longleftrightarrow>
     (\<forall>n. ArgPart n \<in> set ps \<longrightarrow> good_placeholder ff ft args n) \<and>
     used' = foldl (\<lambda>u p. case p of RawPart s \<Rightarrow> u | ArgPart n \<Rightarrow> u[arg_index n := True]) used ps \<and>
     out = concat (map (render ff ft args) ps)"
proof (induction ps arbitrary: used used' out)
  case (Cons p ps)
  show ?case
  proof (cases p)
    case (RawPart s)
    then show ?thesis by (auto simp: Cons.IH case_Inr_iff)
  next
    case (ArgPart n)
    have idx: "int (length args) \<le> sint (n - 1) \<longleftrightarrow> \<not> arg_index n < length args" if "0 \<le> sint (n - 1)"
      using that by (auto simp: arg_index_def nat_less_iff)
    show ?thesis
    proof (cases "good_placeholder ff ft args n")
      case True
      then obtain str where "arg_string ff ft (args ! arg_index n) = Inr str"
        by (cases "arg_string ff ft (args ! arg_index n)") (auto simp: good_placeholder_def)
      then show ?thesis
        using True idx ArgPart
        by (auto simp: Let_def good_placeholder_def arg_index_def Cons.IH case_Inr_iff)
    next
      case False
      then have "\<exists>e. sanitize_parts ff ft args used (p # ps) = Inl e"
        using idx ArgPart
        by (auto simp: Let_def good_placeholder_def arg_index_def split: sum.splits)
      then show ?thesis using False ArgPart by auto
    qed
  qed
qed auto

lemma first_unused_None: "first_unused i us = None \<longleftrightarrow> list_all (\<lambda>u. u) us"
  by (induction us arbitrary: i) auto

lemma used_flags:
  assumes "\<forall>n. ArgPart n \<in> set ps \<longrightarrow> arg_index n < length us"
  shows "list_all (\<lambda>u. u) (foldl (\<lambda>u p. case p of RawPart s \<Rightarrow> u | ArgPart n \<Rightarrow> u[arg_index n := True]) us ps)
    \<longleftrightarrow> (\<forall>i < length us. us ! i \<or> (\<exists>n. ArgPart n \<in> set ps \<and> arg_index n = i))"
  using assms
proof (induction ps arbitrary: us)
  case Nil
  then show ?case by (simp add: list_all_length)
next
  case (Cons p ps)
  show ?case
  proof (cases p)
    case (RawPart s)
    then show ?thesis using Cons by auto
  next
    case (ArgPart n)
    then have "arg_index n < length us" using Cons.prems by auto
    then show ?thesis using Cons ArgPart by (auto simp: nth_list_update)
  qed
qed

text \<open>C16. Sanitising succeeds exactly when every placeholder names an argument of a supported
  type and every argument is named by a placeholder; the result is then the query text with
  each placeholder replaced by its argument between two spaces.\<close>

theorem Sanitize_correct:
  "Sanitize ff ft ps args = Inr out \<longleftrightarrow>
     (\<forall>n. ArgPart n \<in> set ps \<longrightarrow> good_placeholder ff ft args n) \<and>
     (\<forall>i < length args. \<exists>n. ArgPart n \<in> set ps \<and> arg_index n = i) \<and>
     out = concat (map (render ff ft args) ps)"
proof -
  let ?used = "foldl (\<lambda>u p. case p of RawPart s \<Rightarrow> u | ArgPart n \<Rightarrow> u[arg_index n := True])
      (replicate (length args) False) ps"
  have "Sanitize ff ft ps args = Inr out \<longleftrightarrow>
      (\<exists>used. sanitize_parts ff ft args (replicate (length args) False) ps = Inr (used, out) \<and>
        list_all (\<lambda>u. u) used)"
    by (auto simp: Sanitize_def dest: first_unused_None [THEN iffD1] first_unused_None [of 0, THEN iffD2]
        split: sum.splits option.splits)
  also have "\<dots> \<longleftrightarrow> (\<forall>n. ArgPart n \<in> set ps \<longrightarrow> good_placeholder ff ft args n) \<and>
      list_all (\<lambda>u. u) ?used \<and> out = concat (map (render ff ft args) ps)"
    by (auto simp: sanitize_parts_iff)
  also have "\<dots> \<longleftrightarrow> (\<forall>n. ArgPart n \<in> set ps \<longrightarrow> good_placeholder ff ft args n) \<and>
      (\<forall>i < length args. \<exists>n. ArgPart n \<in> set ps \<and> arg_index n = i) \<and>
      out = concat (map (render ff ft args) ps)"
    using used_flags [of ps "replicate (length args) False"] by (auto simp: good_placeholder_def)
  finally show ?thesis .
qed

theorem Sanitize_correct_witness:
  "SQLQuery (\<lambda>_. []) (\<lambda>_. []) ''where p = $1;'' [ArgString ''pub''] = Inr (''where p =  '' @ quoteString ''pub'' @ '' ;'')"
proof -
  have "NewQuery ''where p = $1;'' = [RawPart ''where p = '', ArgPart 1, RawPart '';'']" by code_simp
  moreover have "Sanitize (\<lambda>_. []) (\<lambda>_. []) [RawPart ''where p = '', ArgPart 1, RawPart '';''] [ArgString ''pub'']
      = Inr (''where p =  '' @ quoteString ''pub'' @ '' ;'')"
    by (subst Sanitize_correct) (simp add: good_placeholder_def arg_index_def arg_string_def)
  ultimately show ?thesis by (simp add: SQLQuery_def)
qed

section \<open>Queries with no placeholder, and with one\<close>

lemma lex_run_no_dollar:
  assumes "\<forall>num. st \<noteq> PlaceholderState num" "start l \<le> pos l" "pos l \<le> length (src l)"
    "CHR ''$'' \<notin> set (drop (pos l) (src l))" "valid_rest l"
  shows "parts (lex_run (Some st) l) =
    parts l @ (if start l < length (src l) then [RawPart (drop (start l) (src l))] else [])"
  using assms
proof (induction "lex_measure st l" arbitrary: st l rule: less_induct)
  case less
  obtain st' l' where step: "lex_step st l = (st', l')" by fastforce
  have run: "lex_run (Some st) l = lex_run st' l'" using step by (rule lex_run_step)
  from lex_step_shape [OF step less.prems(1-3)] less.prems(4)
  consider (quiet) st2 where "st' = Some st2" "\<forall>num. st2 \<noteq> PlaceholderState num" "quiet l l'"
    | (stops) "st' = None" "stops l l'" by (auto simp: opens_def)
  then show ?case
  proof cases
    case quiet
    then have q: "src l' = src l" "start l' = start l" "parts l' = parts l" "pos l \<le> pos l'"
      "pos l' \<le> length (src l)" "valid_rest l'" using less.prems(5) by (auto simp: quiet_def)
    have "set (drop (pos l') (src l)) \<subseteq> set (drop (pos l) (src l))"
      using q(4) by (rule set_drop_subset_set_drop)
    then have "CHR ''$'' \<notin> set (drop (pos l') (src l'))" using less.prems(4) q(1) by auto
    then show ?thesis
      using less.hyps [of st2 l'] lex_step_measure [of st l st2 l'] quiet q less.prems step run by auto
  next
    case stops
    then obtain w where w: "rune_at l = (RuneError, w)" "w \<noteq> replacementcharacterwidth"
      "parts l' = (if start l < pos l + w
        then parts l @ [RawPart (slice (src l) (start l) (pos l + w))] else parts l)"
      by (auto simp: stops_def)
    have "w = 0" "pos l = length (src l)"
      using valid_rest_end [OF less.prems(5) w(1,2)] less.prems(3) by auto
    then show ?thesis using run stops(1) w(3) by (simp add: slice_def)
  qed
qed

lemma NewQuery_no_dollar:
  "CHR ''$'' \<notin> set sql \<Longrightarrow> valid_utf8 sql \<Longrightarrow> NewQuery sql = (if sql = [] then [] else [RawPart sql])"
  using lex_run_no_dollar [of RawState "\<lparr>src = sql, start = 0, pos = 0, nested = 0, parts = []\<rparr>"]
  by (simp add: NewQuery_def valid_rest_def)

lemma SQLQuery_no_dollar:
  "CHR ''$'' \<notin> set sql \<Longrightarrow> valid_utf8 sql \<Longrightarrow> SQLQuery ff ft sql [] = Inr sql"
  by (simp add: SQLQuery_def NewQuery_no_dollar Sanitize_def)

lemma NewQuery_one:
  assumes "inert t" "CHR ''$'' \<notin> set (c # rest)" "valid_utf8 (c # rest)"
    and c: "byte_of c < 128" "\<not> (48 \<le> byte_of c \<and> byte_of c \<le> 57)"
  shows "NewQuery (t @ '' $1'' @ c # rest) = [RawPart (t @ '' ''), ArgPart 1, RawPart (c # rest)]"
proof -
  let ?sql = "t @ '' $1'' @ c # rest"
  let ?l = "\<lparr>src = ?sql, start = 0, pos = 0, nested = 0, parts = []\<rparr>"
  let ?a = "\<lparr>src = ?sql, start = 0, pos = length t, nested = 0, parts = []\<rparr>"
  let ?b = "\<lparr>src = ?sql, start = length t + 2, pos = length t + 2, nested = 0, parts = [RawPart (t @ '' '')]\<rparr>"
  let ?c = "\<lparr>src = ?sql, start = length t + 3, pos = length t + 3, nested = 0, parts = [RawPart (t @ '' ''), ArgPart 1]\<rparr>"
  note eval = rawState_def placeholderState_def Let_def advance_def rune_at_def DecodeRune_ascii byte_of_def
    slice_def RuneError_def
  have "lex_run (Some RawState) ?l = lex_run (Some RawState) ?a"
    using raw_run [OF assms(1), of ?l "''$1'' @ c # rest"] by (simp add: advance_def)
  also have "\<dots> = lex_run (Some RawState) (advance 1 ?a)" by (rule lex_run_step) (simp add: eval)
  also have "\<dots> = lex_run (Some (PlaceholderState 0)) ?b" by (rule lex_run_step) (simp add: eval)
  also have "\<dots> = lex_run (Some (PlaceholderState 1)) (advance 1 ?b)" by (rule lex_run_step) (simp add: eval)
  also have "\<dots> = lex_run (Some RawState) ?c"
  proof (rule lex_run_step)
    have "rune_at (advance 1 ?b) = (byte_of c, 1)" using c(1) by (simp add: rune_at_def advance_def DecodeRune_ascii)
    then show "lex_step (PlaceholderState 1) (advance 1 ?b) = (Some RawState, ?c)"
      using c(2) by (auto simp: placeholderState_def advance_def)
  qed
  finally have "NewQuery ?sql = parts (lex_run (Some RawState) ?c)" by (simp add: NewQuery_def)
  also have "\<dots> = [RawPart (t @ '' ''), ArgPart 1, RawPart (c # rest)]"
    using lex_run_no_dollar [of RawState ?c] assms(2,3) by (simp add: valid_rest_def)
  finally show ?thesis .
qed

end
