(* ===== verification/PG_Repl.thy ===== *)
theory PG_Repl
  imports PG_Message PG_Sanitize
begin

text \<open>
  \<^verbatim>\<open>src/internal/impl/postgresql/pglogicalstream/pglogrepl.go\<close>: log sequence numbers and
  their text form, the replication commands and the parsing of their results, the
  publication that is brought in line with the configured tables, and the keepalive, WAL
  data and status messages of the copy-both stream. The database connection is a parameter:
  \<open>exec\<close> gives the results of a statement, or none for an error, from the statements run
  before it.
\<close>

section \<open>Log sequence numbers\<close>

type_synonym lsn = uint64

definition hex_upper :: "nat \<Rightarrow> char" where
  "hex_upper d = (if d < 10 then char_of (48 + d) else char_of (55 + d))"

fun hex_pad :: "nat \<Rightarrow> nat \<Rightarrow> string" where
  "hex_pad 0 n = []"
| "hex_pad (Suc k) n = hex_pad k (n div 16) @ [hex_upper (n mod 16)]"

definition LSN_String :: "lsn \<Rightarrow> string" where
  "LSN_String lsn =
     hex_pad 8 (unat (ucast (drop_bit 32 lsn) :: uint32)) @ ''/'' @ hex_pad 8 (unat (ucast lsn :: uint32))"

text \<open>
  \<^verbatim>\<open>fmt.Sscanf(s, "%X/%X", ...)\<close>: white space before a number is skipped (a newline
  is an error), a number is a non-empty run of hexadecimal digits that fits 64 bits, and
  input behind the second number is ignored.
\<close>

definition hex_val :: "char \<Rightarrow> nat option" where
  "hex_val c =
     (let b = of_char c in
      if 48 \<le> b \<and> b \<le> 57 then Some (b - 48)
      else if 65 \<le> b \<and> b \<le> 70 then Some (b - 55)
      else if 97 \<le> b \<and> b \<le> (102::nat) then Some (b - 87) else None)"

fun skip_space :: "string \<Rightarrow> string option" where
  "skip_space [] = Some []"
| "skip_space (c # cs) =
     (if c = CHR 0x0A then None
      else if c \<in> {CHR '' '', CHR 0x09, CHR 0x0B, CHR 0x0C, CHR 0x0D} then skip_space cs
      else Some (c # cs))"

fun hex_run :: "nat \<Rightarrow> string \<Rightarrow> nat \<times> string" where
  "hex_run n [] = (n, [])"
| "hex_run n (c # cs) = (case hex_val c of None \<Rightarrow> (n, c # cs) | Some d \<Rightarrow> hex_run (16 * n + d) cs)"

definition scan_hex :: "string \<Rightarrow> (uint64 \<times> string) option" where
  "scan_hex s =
     (case skip_space s of
        None \<Rightarrow> None
      | Some [] \<Rightarrow> None
      | Some (c # cs) \<Rightarrow>
         if hex_val c = None then None
         else let (n, rest) = hex_run 0 (c # cs) in
              if n < 2 ^ 64 then Some (word_of_nat n, rest) else None)"

definition ParseLSN :: "string \<Rightarrow> lsn option" where
  "ParseLSN s =
     (case scan_hex s of
        Some (upperHalf, CHR ''/'' # rest) \<Rightarrow>
          (case scan_hex rest of
             Some (lowerHalf, _) \<Rightarrow> Some (push_bit 32 upperHalf + lowerHalf)
           | None \<Rightarrow> None)
      | _ \<Rightarrow> None)"

datatype scan_src = ScanUint64 uint64 | ScanString string | ScanBytes string | ScanOther

definition LSN_Scan :: "lsn \<Rightarrow> scan_src \<Rightarrow> lsn option" where
  "LSN_Scan lsn v =
     (case v of
        ScanUint64 u \<Rightarrow> Some u
      | ScanString s \<Rightarrow> ParseLSN s
      | ScanBytes b \<Rightarrow> ParseLSN b
      | ScanOther \<Rightarrow> None)"

section \<open>Commands\<close>

type_synonym rows = "string list list"
type_synonym exec = "string list \<Rightarrow> string \<Rightarrow> rows list option"

datatype cmd_error =
    ExecError | ResultSets nat | ResultRows nat | ResultColumns nat | BadTimeline | BadLSN
  | UnexpectedResult | UnexpectedSlotName | UnexpectedDelimiter

definition fits_int32 :: "int \<Rightarrow> bool" where
  "fits_int32 k \<longleftrightarrow> - (2 ^ 31) \<le> k \<and> k < 2 ^ 31"

record IdentifySystemResult =
  SystemID :: string
  Timeline :: int
  XLogPos :: lsn
  DBName :: string

definition ParseIdentifySystem :: "rows list option \<Rightarrow> (cmd_error, IdentifySystemResult) outcome" where
  "ParseIdentifySystem mrr =
     (case mrr of None \<Rightarrow> Err ExecError
      | Some results \<Rightarrow>
        if length results \<noteq> 1 then Err (ResultSets (length results))
        else let rows = results ! 0 in
        if length rows \<noteq> 1 then Err (ResultRows (length rows))
        else let row = rows ! 0 in
        if length row \<noteq> 4 then Err (ResultColumns (length row))
        else (case strconv_ParseInt 32 (row ! 1) of None \<Rightarrow> Err BadTimeline
        | Some timeline \<Rightarrow>
          (case ParseLSN (row ! 2) of None \<Rightarrow> Err BadLSN
           | Some xlogpos \<Rightarrow> Ok \<lparr>SystemID = row ! 0, Timeline = timeline, XLogPos = xlogpos, DBName = row ! 3\<rparr>)))"

definition IdentifySystem :: "exec \<Rightarrow> string list \<Rightarrow> (cmd_error, IdentifySystemResult) outcome" where
  "IdentifySystem exec log = ParseIdentifySystem (exec log ''IDENTIFY_SYSTEM'')"

record TimelineHistoryResult =
  FileName :: string
  HistoryContent :: string

definition ParseTimelineHistory :: "rows list option \<Rightarrow> (cmd_error, TimelineHistoryResult) outcome" where
  "ParseTimelineHistory mrr =
     (case mrr of None \<Rightarrow> Err ExecError
      | Some results \<Rightarrow>
        if length results \<noteq> 1 then Err (ResultSets (length results))
        else let rows = results ! 0 in
        if length rows \<noteq> 1 then Err (ResultRows (length rows))
        else let row = rows ! 0 in
        if length row \<noteq> 2 then Err (ResultColumns (length row))
        else Ok \<lparr>FileName = row ! 0, HistoryContent = row ! 1\<rparr>)"

definition TimelineHistory :: "exec \<Rightarrow> string list \<Rightarrow> int \<Rightarrow> (cmd_error, TimelineHistoryResult) outcome" where
  "TimelineHistory exec log timeline =
     ParseTimelineHistory (exec log (''TIMELINE_HISTORY '' @ dec_int timeline))"

record CreateReplicationSlotOptions =
  Temporary :: bool
  SnapshotAction :: string

definition create_slot_cmd :: "string \<Rightarrow> string \<Rightarrow> CreateReplicationSlotOptions \<Rightarrow> string" where
  "create_slot_cmd slotName outputPlugin options =
     ''CREATE_REPLICATION_SLOT '' @ slotName @ '' '' @ (if Temporary options then ''TEMPORARY'' else []) @
     '' LOGICAL '' @ outputPlugin @ '' '' @ SnapshotAction options"

definition CreateReplicationSlot ::
  "exec \<Rightarrow> string list \<Rightarrow> string \<Rightarrow> string \<Rightarrow> CreateReplicationSlotOptions
     \<Rightarrow> (cmd_error, lsn \<times> string) outcome" where
  "CreateReplicationSlot exec log slotName outputPlugin options =
     (case exec log (create_slot_cmd slotName outputPlugin options) of None \<Rightarrow> Err ExecError
      | Some results \<Rightarrow>
        if length results \<noteq> 1 \<or> length (results ! 0) \<noteq> 1 \<or> length (results ! 0 ! 0) \<noteq> 4
        then Err UnexpectedResult
        else (case ParseLSN (results ! 0 ! 0 ! 1) of None \<Rightarrow> Err BadLSN
             | Some lsn \<Rightarrow> Ok (lsn, results ! 0 ! 0 ! 2)))"

definition CutPrefix :: "string \<Rightarrow> string \<Rightarrow> string option" where
  "CutPrefix s p = (if length p \<le> length s \<and> take (length p) s = p then Some (drop (length p) s) else None)"

definition copy_slot_cmd :: "string \<Rightarrow> string \<Rightarrow> bool \<Rightarrow> string" where
  "copy_slot_cmd oldSlot newSlot temporary =
     ''select pg_copy_logical_replication_slot('' @ [quote] @ oldSlot @ [quote] @ '', '' @ [quote] @
     newSlot @ [quote] @ '', '' @ (if temporary then ''true'' else ''false'') @ '')''"

text \<open>A result between different parentheses has at least two characters, so the slice
  \<^verbatim>\<open>result[1 : len(result)-1]\<close> is in range.\<close>

definition CopyReplicationSlot ::
  "exec \<Rightarrow> string list \<Rightarrow> string \<Rightarrow> string \<Rightarrow> bool \<Rightarrow> (cmd_error, lsn) outcome" where
  "CopyReplicationSlot exec log oldSlot newSlot temporary =
     (case exec log (copy_slot_cmd oldSlot newSlot temporary) of None \<Rightarrow> Err ExecError
      | Some results \<Rightarrow>
        if length results \<noteq> 1 \<or> length (results ! 0) \<noteq> 1 \<or> length (results ! 0 ! 0) \<noteq> 1
        then Err UnexpectedResult
        else let result = results ! 0 ! 0 ! 0 in
        if result = [] \<or> hd result \<noteq> CHR ''('' \<or> last result \<noteq> CHR '')'' then Err UnexpectedResult
        else (case CutPrefix (butlast (tl result)) newSlot of None \<Rightarrow> Err UnexpectedSlotName
        | Some rest \<Rightarrow>
          (case CutPrefix rest '','' of None \<Rightarrow> Err UnexpectedDelimiter
           | Some text \<Rightarrow>
             (case ParseLSN text of None \<Rightarrow> Err BadLSN | Some lsn \<Rightarrow> Ok lsn))))"

definition DropReplicationSlot :: "exec \<Rightarrow> string list \<Rightarrow> string \<Rightarrow> bool \<Rightarrow> (cmd_error, unit) outcome" where
  "DropReplicationSlot exec log slotName wait =
     (case exec log (''DROP_REPLICATION_SLOT '' @ slotName @ '' '' @ (if wait then ''WAIT'' else [])) of
        None \<Rightarrow> Err ExecError | Some _ \<Rightarrow> Ok ())"

section \<open>Publications\<close>

record TableFQN =
  Schema :: string
  Table :: string

definition TableFQN_String :: "TableFQN \<Rightarrow> string" where
  "TableFQN_String t = Schema t @ ''.'' @ Table t"

datatype pub_error =
    PubSanitize sanitize_error
  | PubExec string

type_synonym pub_result = "string list \<times> (pub_error, unit) outcome"

definition indent :: "nat \<Rightarrow> string" where
  "indent n = CHR 0x0A # replicate n (CHR 0x09)"

definition pub_query :: string where
  "pub_query =
     indent 3 @ ''SELECT pubname, puballtables'' @ indent 3 @ ''FROM pg_publication'' @
     indent 3 @ ''WHERE pubname = $1;'' @ indent 2"

definition tables_query :: string where
  "tables_query =
     indent 2 @ ''SELECT DISTINCT'' @ indent 2 @ ''tablename as table_name,'' @
     indent 2 @ ''schemaname as schema_name'' @ indent 2 @ ''FROM pg_publication_tables'' @
     indent 2 @ ''WHERE pubname = $1'' @ indent 2 @ ''ORDER BY schema_name, table_name;'' @ indent 1"

text \<open>One statement: sanitise, execute, append to the log; the result or the error to return.\<close>

definition run_query ::
  "exec \<Rightarrow> string list \<Rightarrow> string \<Rightarrow> arg list \<Rightarrow> string list \<times> (pub_error, rows list) outcome" where
  "run_query exec log sql args =
     (case SQLQuery (\<lambda>_. []) (\<lambda>_. []) sql args of
        Inl e \<Rightarrow> (log, Err (PubSanitize e))
      | Inr q \<Rightarrow>
         (log @ [q], case exec log q of None \<Rightarrow> Err (PubExec q) | Some rs \<Rightarrow> Ok rs))"

definition pub_row :: "string list \<Rightarrow> TableFQN option" where
  "pub_row row =
     (case row of
        table # schema # _ \<Rightarrow>
          Some \<lparr>Schema = QuotePostgresIdentifier schema, Table = QuotePostgresIdentifier table\<rparr>
      | _ \<Rightarrow> None)"

definition GetPublicationTables ::
  "exec \<Rightarrow> string list \<Rightarrow> string \<Rightarrow> string list \<times> (pub_error, TableFQN list \<times> bool) outcome" where
  "GetPublicationTables exec log name =
     (case run_query exec log tables_query [ArgString name] of
        (log, Err e) \<Rightarrow> (log, Err e)
      | (log, Panic) \<Rightarrow> (log, Panic)
      | (log, Ok rs) \<Rightarrow>
         (log, case rs of
            [] \<Rightarrow> Ok ([], True)
          | [] # _ \<Rightarrow> Ok ([], True)
          | rows # _ \<Rightarrow> obind (of_opt (those (map pub_row rows))) (\<lambda>tables. Ok (tables, False))))"

fun join :: "string \<Rightarrow> string list \<Rightarrow> string" where
  "join sep [] = []"
| "join sep [s] = s"
| "join sep (s # t # ss) = s @ sep @ join sep (t # ss)"

definition tables_clause :: "TableFQN list \<Rightarrow> string" where
  "tables_clause tables =
     (if tables = [] then ''FOR ALL TABLES'' else ''FOR TABLE '' @ join '', '' (map TableFQN_String tables))"

definition alter_sql :: "string \<Rightarrow> string \<Rightarrow> TableFQN \<Rightarrow> string" where
  "alter_sql name verb t = ''ALTER PUBLICATION '' @ name @ '' '' @ verb @ '' TABLE '' @ TableFQN_String t @ '';''"

fun run_all :: "exec \<Rightarrow> string list \<Rightarrow> string list \<Rightarrow> pub_result" where
  "run_all exec log [] = (log, Ok ())"
| "run_all exec log (sql # sqls) =
     (case run_query exec log sql [] of
        (log, Err e) \<Rightarrow> (log, Err e)
      | (log, Panic) \<Rightarrow> (log, Panic)
      | (log, Ok _) \<Rightarrow> run_all exec log sqls)"

definition tablesToAdd :: "TableFQN list \<Rightarrow> TableFQN list \<Rightarrow> TableFQN list" where
  "tablesToAdd tables pubTables = filter (\<lambda>t. t \<notin> set pubTables) tables"

definition tablesToRemove :: "TableFQN list \<Rightarrow> TableFQN list \<Rightarrow> TableFQN list" where
  "tablesToRemove tables pubTables = filter (\<lambda>t. t \<notin> set tables) pubTables"

definition CreatePublication :: "exec \<Rightarrow> string list \<Rightarrow> string \<Rightarrow> TableFQN list \<Rightarrow> pub_result" where
  "CreatePublication exec log name tables =
     (case run_query exec log pub_query [ArgString name] of
        (log, Err e) \<Rightarrow> (log, Err e)
      | (log, Panic) \<Rightarrow> (log, Panic)
      | (log, Ok rs) \<Rightarrow>
         if rs = [] \<or> hd rs = [] then
           run_all exec log [''CREATE PUBLICATION '' @ name @ '' '' @ tables_clause tables @ '';'']
         else
           (case GetPublicationTables exec log name of
              (log, Err e) \<Rightarrow> (log, Err e)
            | (log, Panic) \<Rightarrow> (log, Panic)
            | (log, Ok (pubTables, forAllTables)) \<Rightarrow>
               if forAllTables \<and> pubTables = [] then (log, Ok ())
               else
                 run_all exec log
                   (map (alter_sql name ''DROP'') (tablesToRemove tables pubTables) @
                    map (alter_sql name ''ADD'') (tablesToAdd tables pubTables))))"

section \<open>The replication stream\<close>

datatype backend_msg =
    NoticeResponse | ErrorResponse | CopyBothResponse | CopyDone | ParameterStatus | CommandComplete
  | RowDescription | DataRow "string list" | EmptyQueryResponse | ReadyForQuery | OtherMessage

datatype start_error = ReceiveError | ServerError | UnexpectedType

definition start_cmd :: "string \<Rightarrow> lsn \<Rightarrow> string list \<Rightarrow> string" where
  "start_cmd slotName startLSN pluginArgs =
     ''START_REPLICATION SLOT '' @ slotName @ '' LOGICAL '' @ LSN_String startLSN @ '' '' @
     (if pluginArgs \<noteq> [] then ''('' @ join '', '' pluginArgs @ '')'' else [])"

text \<open>The receive loops; the list is what the server sends, a read past its end fails.\<close>

fun StartReplication :: "backend_msg list \<Rightarrow> (start_error, unit) outcome" where
  "StartReplication [] = Err ReceiveError"
| "StartReplication (NoticeResponse # ms) = StartReplication ms"
| "StartReplication (ErrorResponse # ms) = Err ServerError"
| "StartReplication (CopyBothResponse # ms) = Ok ()"
| "StartReplication (m # ms) = Err UnexpectedType"

record CopyDoneResult =
  Done_Timeline :: int
  Done_LSN :: lsn

definition to_int32 :: "int \<Rightarrow> int" where
  "to_int32 k = sint (word_of_int k :: 32 word)"

definition copy_done_row :: "string list \<Rightarrow> CopyDoneResult option \<Rightarrow> CopyDoneResult option" where
  "copy_done_row values cdr =
     (if length values = 2 then
        case strconv_ParseInt 64 (values ! 0) of None \<Rightarrow> cdr
        | Some timeline \<Rightarrow>
          (case ParseLSN (values ! 1) of None \<Rightarrow> cdr
           | Some lsn \<Rightarrow> Some \<lparr>Done_Timeline = to_int32 timeline, Done_LSN = lsn\<rparr>)
      else cdr)"

fun SendStandbyCopyDone ::
  "CopyDoneResult option \<Rightarrow> backend_msg list \<Rightarrow> CopyDoneResult option \<times> start_error option" where
  "SendStandbyCopyDone cdr [] = (cdr, Some ReceiveError)"
| "SendStandbyCopyDone cdr (DataRow values # ms) = SendStandbyCopyDone (copy_done_row values cdr) ms"
| "SendStandbyCopyDone cdr (ErrorResponse # ms) = (cdr, Some ServerError)"
| "SendStandbyCopyDone cdr (ReadyForQuery # ms) = (cdr, None)"
| "SendStandbyCopyDone cdr (m # ms) = SendStandbyCopyDone cdr ms"

record PrimaryKeepaliveMessage =
  Keepalive_ServerWALEnd :: lsn
  Keepalive_ServerTime :: instant
  Keepalive_ReplyRequested :: bool

definition ParsePrimaryKeepaliveMessage :: "byte list \<Rightarrow> (pg_error, PrimaryKeepaliveMessage) outcome" where
  "ParsePrimaryKeepaliveMessage buf =
     (if length buf \<noteq> 17 then Err (LengthError ''PrimaryKeepaliveMessage'' 17 (length buf))
      else obind (decodeLSN buf) (\<lambda>(end, buf).
           obind (decodeTime buf) (\<lambda>(time, buf).
           obind (decodeByte buf) (\<lambda>(reply, buf).
           Ok \<lparr>Keepalive_ServerWALEnd = end, Keepalive_ServerTime = time,
               Keepalive_ReplyRequested = (reply \<noteq> 0)\<rparr>))))"

record XLogData =
  WALStart :: lsn
  ServerWALEnd :: lsn
  ServerTime :: instant
  WALData :: "byte list"

definition ParseXLogData :: "byte list \<Rightarrow> (pg_error, XLogData) outcome" where
  "ParseXLogData buf =
     (if length buf < 24 then Err (LengthError ''XLogData'' 24 (length buf))
      else obind (decodeLSN buf) (\<lambda>(wal_start, buf).
           obind (decodeLSN buf) (\<lambda>(end, buf).
           obind (decodeTime buf) (\<lambda>(time, buf).
           Ok \<lparr>WALStart = wal_start, ServerWALEnd = end, ServerTime = time, WALData = buf\<rparr>))))"

record StandbyStatusUpdate =
  WALWritePosition :: lsn
  WALFlushPosition :: lsn
  WALApplyPosition :: lsn
  ClientTime :: instant
  ReplyRequested :: bool

definition zero_time :: instant where
  "zero_time = \<lparr>Unix = word_of_int (- 62135596800), Nanosecond = 0\<rparr>"

text \<open>The payload of the \<^verbatim>\<open>CopyData\<close> message; \<open>now\<close> is \<^verbatim>\<open>time.Now()\<close>.\<close>

definition SendStandbyStatusUpdate :: "instant \<Rightarrow> StandbyStatusUpdate \<Rightarrow> byte list" where
  "SendStandbyStatusUpdate now ssu =
     (let write = WALWritePosition ssu;
          flush = (if WALFlushPosition ssu = 0 then write else WALFlushPosition ssu);
          apply = (if WALApplyPosition ssu = 0 then write else WALApplyPosition ssu);
          time = (if ClientTime ssu = zero_time then now else ClientTime ssu) in
      114 # be_bytes 8 (uint write) @ be_bytes 8 (uint flush) @ be_bytes 8 (uint apply) @
      be_bytes 8 (uint (timeToPgTime time)) @ [if ReplyRequested ssu then 1 else 0])"

section \<open>Log sequence numbers survive printing\<close>

lemma hex_val_upper: "d < 16 \<Longrightarrow> hex_val (hex_upper d) = Some d"
  by (auto simp: hex_val_def hex_upper_def Let_def)

lemma hex_run_pad: "hex_run n (hex_pad k m @ rest) = hex_run (n * 16 ^ k + m mod 16 ^ k) rest"
proof (induction k arbitrary: n m rest)
  case (Suc k)
  have "16 * (n * 16 ^ k + m div 16 mod 16 ^ k) + m mod 16 = n * 16 ^ Suc k + m mod 16 ^ Suc k"
    by (simp add: mod_mult2_eq algebra_simps)
  then show ?case
    by (simp add: Suc.IH hex_val_upper del: power_Suc)
qed simp

lemma hex_pad_first: "0 < k \<Longrightarrow> \<exists>c cs. hex_pad k m @ rest = c # cs \<and> hex_val c \<noteq> None"
proof (induction k arbitrary: m rest)
  case (Suc k)
  then show ?case by (cases k) (auto simp: hex_val_upper)
qed simp

lemma skip_space_hex: "hex_val c \<noteq> None \<Longrightarrow> skip_space (c # cs) = Some (c # cs)"
proof -
  have "hex_val CHR 0x0A = None" "hex_val CHR '' '' = None" "hex_val CHR 0x09 = None"
    "hex_val CHR 0x0B = None" "hex_val CHR 0x0C = None" "hex_val CHR 0x0D = None"
    by (simp_all add: hex_val_def)
  then show "hex_val c \<noteq> None \<Longrightarrow> skip_space (c # cs) = Some (c # cs)" by auto
qed

lemma scan_hex_pad:
  assumes "rest = [] \<or> hex_val (hd rest) = None" "0 < k" "k \<le> 16"
  shows "scan_hex (hex_pad k m @ rest) = Some (word_of_nat (m mod 16 ^ k), rest)"
proof -
  obtain c cs where c: "hex_pad k m @ rest = c # cs" "hex_val c \<noteq> None"
    using hex_pad_first [OF assms(2)] by blast
  have "hex_run (m mod 16 ^ k) rest = (m mod 16 ^ k, rest)"
    using assms(1) by (cases rest) auto
  then have run: "hex_run 0 (c # cs) = (m mod 16 ^ k, rest)"
    using hex_run_pad [of 0 k m rest] c(1) by simp
  have "m mod 16 ^ k < 16 ^ k" by simp
  also have "(16::nat) ^ k \<le> 16 ^ 16" using assms(3) by (rule power_increasing) simp
  finally have "m mod 16 ^ k < 2 ^ 64" by simp
  then show ?thesis using run c(2) by (simp add: scan_hex_def c(1) skip_space_hex [OF c(2)] del: skip_space.simps hex_run.simps)
qed

lemma LSN_String_parse:
  assumes "rest = [] \<or> hex_val (hd rest) = None"
  shows "ParseLSN (LSN_String l @ rest) = Some l"
proof -
  let ?u = "unat (ucast (drop_bit 32 l) :: uint32)" and ?v = "unat (ucast l :: uint32)"
  have "?u < 16 ^ 8" "?v < 16 ^ 8"
    using unsigned_less [of "ucast (drop_bit 32 l) :: uint32", where 'a = nat]
      unsigned_less [of "ucast l :: uint32", where 'a = nat] by simp_all
  then have s: "scan_hex (hex_pad 8 ?u @ CHR ''/'' # hex_pad 8 ?v @ rest) = Some (word_of_nat ?u, CHR ''/'' # hex_pad 8 ?v @ rest)"
    "scan_hex (hex_pad 8 ?v @ rest) = Some (word_of_nat ?v, rest)"
    using scan_hex_pad [of "CHR ''/'' # hex_pad 8 ?v @ rest" 8 ?u] scan_hex_pad [OF assms, of 8 ?v]
    by (simp_all add: hex_val_def)
  have "(word_of_nat ?u :: uint64) = drop_bit 32 l"
    by (simp add: bit_eq_iff bit_ucast_iff bit_drop_bit_eq) (auto dest: bit_imp_le_length)
  moreover have "(word_of_nat ?v :: uint64) = take_bit 32 l"
    by (simp add: bit_eq_iff bit_ucast_iff bit_take_bit_iff)
  ultimately have "push_bit 32 (word_of_nat ?u) + word_of_nat ?v = l" by (simp add: bits_ident)
  then show ?thesis by (simp add: ParseLSN_def LSN_String_def s del: word_of_nat_eq_iff)
qed

text \<open>C30. The text form of a log sequence number, which carries acknowledgements between the
  stream and its consumer, parses back to the same number, also with text behind it that
  does not start with a hexadecimal digit.\<close>

theorem LSN_roundtrip:
  assumes "rest = [] \<or> hex_val (hd rest) = None"
  shows "ParseLSN (LSN_String l @ rest) = Some l"
  by (rule LSN_String_parse [OF assms])

theorem LSN_roundtrip_witness: "ParseLSN (LSN_String 0x16B374D848 @ '','') = Some 0x16B374D848"
  by (rule LSN_roundtrip) (simp add: hex_val_def)

section \<open>Commands\<close>

lemma CutPrefix_append [simp]: "CutPrefix (p @ s) p = Some s"
  by (simp add: CutPrefix_def)

text \<open>A copied slot is found again in the server's answer.\<close>

lemma CopyReplicationSlot_answer:
  assumes "exec log (copy_slot_cmd old new tmp) = Some [[[''('' @ new @ '','' @ LSN_String l @ '')'']]]"
  shows "CopyReplicationSlot exec log old new tmp = Ok l"
proof -
  have "CutPrefix (CHR '','' # LSN_String l) '','' = Some (LSN_String l)"
    using CutPrefix_append [of "'',''" "LSN_String l"] by simp
  moreover have "ParseLSN (LSN_String l) = Some l" using LSN_String_parse [of "[]"] by simp
  ultimately show ?thesis
    using assms by (simp add: CopyReplicationSlot_def butlast_append)
qed

lemma StartReplication_skips_notices:
  "StartReplication (replicate n NoticeResponse @ CopyBothResponse # ms) = Ok ()"
  by (induction n) simp_all

section \<open>Publications are reconciled\<close>

lemma SQLQuery_one:
  assumes "sql = t @ '' $1'' @ c # rest" "inert t" "CHR ''$'' \<notin> set (c # rest)" "valid_utf8 (c # rest)"
    "byte_of c < 128" "\<not> (48 \<le> byte_of c \<and> byte_of c \<le> 57)"
  shows "\<exists>q. SQLQuery ff ft sql [ArgString s] = Inr q"
  unfolding SQLQuery_def assms(1) NewQuery_one [OF assms(2-6)]
  by (simp add: Sanitize_def arg_string_def)

lemma pub_query_sanitized: "\<exists>q. SQLQuery ff ft pub_query [ArgString s] = Inr q"
  by (rule SQLQuery_one [of _ "indent 3 @ ''SELECT pubname, puballtables'' @ indent 3 @ ''FROM pg_publication'' @
     indent 3 @ ''WHERE pubname =''" "CHR '';''" "indent 2"]) code_simp+

lemma tables_query_sanitized: "\<exists>q. SQLQuery ff ft tables_query [ArgString s] = Inr q"
  by (rule SQLQuery_one [of _ "indent 2 @ ''SELECT DISTINCT'' @ indent 2 @ ''tablename as table_name,'' @
     indent 2 @ ''schemaname as schema_name'' @ indent 2 @ ''FROM pg_publication_tables'' @
     indent 2 @ ''WHERE pubname =''" "CHR 0x0A" "replicate 2 (CHR 0x09) @ ''ORDER BY schema_name, table_name;'' @ indent 1"]) code_simp+

lemma run_all_Ok:
  assumes "run_all exec log sqls = (log', Ok ())"
  shows "\<exists>qs. log' = log @ qs \<and> map Inr qs = map (\<lambda>sql. SQLQuery (\<lambda>_. []) (\<lambda>_. []) sql []) sqls"
  using assms
proof (induction sqls arbitrary: log)
  case (Cons sql sqls)
  then obtain q rs where q: "SQLQuery (\<lambda>_. []) (\<lambda>_. []) sql [] = Inr q" "exec log q = Some rs"
    "run_all exec (log @ [q]) sqls = (log', Ok ())"
    by (auto simp: run_query_def split: sum.splits option.splits)
  from Cons.IH [OF q(3)] obtain qs where "log' = (log @ [q]) @ qs"
    "map Inr qs = map (\<lambda>sql. SQLQuery (\<lambda>_. []) (\<lambda>_. []) sql []) sqls" by blast
  then show ?case using q(1) by (intro exI [of _ "q # qs"]) simp
qed simp


definition example_exec :: exec where
  "example_exec log sql =
     (if log = [] then Some [[[''p'', ''f'']]]
      else if length log = 1 then Some [[[''a'', ''s''], [''b'', ''s'']]]
      else Some [])"

definition example_table :: "string \<Rightarrow> TableFQN" where
  "example_table t = \<lparr>Schema = QuotePostgresIdentifier ''s'', Table = QuotePostgresIdentifier t\<rparr>"


text \<open>
  A publication that exists but lists no table is taken for one on all tables: the
  configured tables are not added to it.
\<close>

lemma publication_without_tables_kept:
  assumes "run_query exec log pub_query [ArgString name] = (log1, Ok rs)" "rs \<noteq> []" "hd rs \<noteq> []"
    and "GetPublicationTables exec log1 name = (log2, Ok ([], forAll))"
  shows "CreatePublication exec log name tables = (log2, Ok ())"
proof -
  have "forAll"
    using assms(4)
    by (auto simp: GetPublicationTables_def split: prod.splits outcome.splits list.splits option.splits)
  then show ?thesis using assms by (simp add: CreatePublication_def)
qed

section \<open>Keepalive, WAL data and status messages\<close>

text \<open>Keepalive and WAL data messages are parsed for every buffer without a panic: a keepalive
  message exactly when it has 17 bytes, WAL data exactly when it has at least 24, and then
  the WAL data is everything behind the 24 bytes of the header.\<close>

theorem wal_messages_total:
  "ParsePrimaryKeepaliveMessage buf \<noteq> Panic \<and> ParseXLogData buf \<noteq> Panic \<and>
   ((\<exists>m. ParsePrimaryKeepaliveMessage buf = Ok m) \<longleftrightarrow> length buf = 17) \<and>
   ((\<exists>x. ParseXLogData buf = Ok x \<and> WALData x = drop 24 buf) \<longleftrightarrow> 24 \<le> length buf)"
proof -
  have lsn: "\<exists>v. decodeLSN b = Ok (v, drop 8 b)" if "8 \<le> length b" for b
    using that by (auto simp: decodeLSN_def read_be_def be_read_def)
  have time: "\<exists>v. decodeTime b = Ok (v, drop 8 b)" if "8 \<le> length b" for b
    using that by (auto simp: decodeTime_def read_be_def be_read_def)
  have byte: "\<exists>v. decodeByte b = Ok (v, drop 1 b)" if "1 \<le> length b" for b
    using that by (cases b) auto
  have "\<exists>m. ParsePrimaryKeepaliveMessage buf = Ok m" if "length buf = 17"
    using lsn [of buf] time [of "drop 8 buf"] byte [of "drop 16 buf"] that
    by (auto simp: ParsePrimaryKeepaliveMessage_def)
  moreover have "\<exists>x. ParseXLogData buf = Ok x \<and> WALData x = drop 24 buf" if "24 \<le> length buf"
  proof -
    have "8 \<le> length buf" "8 \<le> length (drop 8 buf)" "8 \<le> length (drop 16 buf)" using that by simp_all
    then obtain a b c where "decodeLSN buf = Ok (a, drop 8 buf)" "decodeLSN (drop 8 buf) = Ok (b, drop 16 buf)"
      "decodeTime (drop 16 buf) = Ok (c, drop 24 buf)"
      using lsn [of buf] lsn [of "drop 8 buf"] time [of "drop 16 buf"] by auto
    then show ?thesis using that by (simp add: ParseXLogData_def)
  qed
  moreover have "length buf \<noteq> 17 \<Longrightarrow> \<exists>e. ParsePrimaryKeepaliveMessage buf = Err e"
    "\<not> 24 \<le> length buf \<Longrightarrow> \<exists>e. ParseXLogData buf = Err e"
    by (auto simp: ParsePrimaryKeepaliveMessage_def ParseXLogData_def)
  ultimately show ?thesis by fastforce
qed

text \<open>A status update is 34 bytes long and carries the write position, the flush and apply
  positions where they are given and the write position where they are zero, and the
  client time, in the order and width the server reads them.\<close>

theorem status_update_layout:
  "length (SendStandbyStatusUpdate now ssu) = 34 \<and> hd (SendStandbyStatusUpdate now ssu) = 114 \<and>
   obind (decodeLSN (tl (SendStandbyStatusUpdate now ssu))) (\<lambda>(w, r).
   obind (decodeLSN r) (\<lambda>(f, r). obind (decodeLSN r) (\<lambda>(a, r). obind (decodeLSN r) (\<lambda>(t, r).
     Ok (w, f, a, t, r))))) =
   Ok (WALWritePosition ssu,
       if WALFlushPosition ssu = 0 then WALWritePosition ssu else WALFlushPosition ssu,
       if WALApplyPosition ssu = 0 then WALWritePosition ssu else WALApplyPosition ssu,
       timeToPgTime (if ClientTime ssu = zero_time then now else ClientTime ssu),
       [if ReplyRequested ssu then 1 else 0])"
  by (simp add: SendStandbyStatusUpdate_def Let_def lsn_codec.dec_enc [unfolded enc_word_def])

end
