(* ===== verification/PG_Stream.thy ===== *)
theory PG_Stream
  imports PG_Repl
begin

text \<open>
  From replication messages to the messages of the input, and the loop that streams them:
  \<^verbatim>\<open>replication_message_decoders.go\<close>, \<^verbatim>\<open>schema.go\<close>,
  \<^verbatim>\<open>pgtype_compat.go\<close> and the streaming part of \<^verbatim>\<open>logical_stream.go\<close> in
  \<^verbatim>\<open>src/internal/impl/postgresql/pglogicalstream/\<close>, with the decimal helpers of
  \<^verbatim>\<open>src/internal/sqlutil/decimal.go\<close>. The type map of pgx, the decimal functions of the
  benthos schema package, \<^verbatim>\<open>big.Rat\<close> and the printing of UUIDs are the record
  \<open>pgext\<close>. One turn of the streaming loop is \<open>stream_turn\<close>; \<open>stream_step\<close>
  interleaves turns with acknowledgements from the consumer.
\<close>

section \<open>Values and schemas\<close>

datatype pg_any =
    PNil
  | PText "byte list"
  | PInt16 int
  | PInt32 int
  | PTime instant
  | PUUID "byte list"
  | POther nat

datatype CommonType =
    CBoolean | CInt32 | CInt64 | CFloat32 | CFloat64 | CString | CByteArray | CTimestamp | CAny
  | CObject | CDecimal int int | CBigDecimal

datatype common = Common (Common_Name: "byte list") (Common_Type: CommonType) (Optional: bool) (Children: "common list")

record pgext =
  TypeForOID :: "uint32 \<Rightarrow> string option"
  DecodeValue :: "uint32 \<Rightarrow> byte list \<Rightarrow> pg_any option"
  uuid_String :: "byte list \<Rightarrow> byte list"
  Decimal_Parse :: "int \<Rightarrow> int \<Rightarrow> byte list \<Rightarrow> int option"
  Decimal_Format :: "int \<Rightarrow> int \<Rightarrow> int \<Rightarrow> byte list option"
  Rat_SetString :: "byte list \<Rightarrow> (int \<times> int) option"
  ParseBigDecimal :: "byte list \<Rightarrow> (int \<times> int) option"
  FormatBigDecimal :: "int \<Rightarrow> int \<Rightarrow> byte list option"
  NewDecimal :: "byte list \<Rightarrow> int \<Rightarrow> int \<Rightarrow> bool \<Rightarrow> common option"
  NewBigDecimal :: "byte list \<Rightarrow> bool \<Rightarrow> common"

definition lower_char :: "char \<Rightarrow> char" where
  "lower_char c = (if 65 \<le> byte_of c \<and> byte_of c \<le> 90 then char_of (byte_of c + 32) else c)"

definition ToLower :: "string \<Rightarrow> string" where
  "ToLower s = map lower_char s"

definition pgTypeNameToCommonType :: "string \<Rightarrow> CommonType" where
  "pgTypeNameToCommonType typeName =
     (let t = ToLower typeName in
      if t \<in> {''bool'', ''boolean''} then CBoolean
      else if t \<in> {''int2'', ''smallint''} then CInt32
      else if t \<in> {''int4'', ''integer'', ''int''} then CInt32
      else if t \<in> {''int8'', ''bigint''} then CInt64
      else if t \<in> {''float4'', ''real''} then CFloat32
      else if t \<in> {''float8'', ''double precision'', ''double''} then CFloat64
      else if t \<in> {''numeric'', ''decimal''} then CString
      else if t \<in> {''text'', ''varchar'', ''character varying'', ''char'', ''bpchar'', ''name''} then CString
      else if t = ''bytea'' then CByteArray
      else if t = ''date'' then CTimestamp
      else if t \<in> {''time'', ''timetz'', ''time without time zone'', ''time with time zone''} then CString
      else if t \<in> {''timestamp'', ''timestamptz'', ''timestamp without time zone'', ''timestamp with time zone''}
        then CTimestamp
      else if t \<in> {''json'', ''jsonb''} then CAny
      else if t = ''uuid'' then CString
      else CAny)"

definition isPgNumericType :: "string \<Rightarrow> bool" where
  "isPgNumericType typeName \<longleftrightarrow> ToLower typeName \<in> {''numeric'', ''decimal''}"

definition pgNumericModFromAtttypmod :: "uint32 \<Rightarrow> (int \<times> int) option" where
  "pgNumericModFromAtttypmod atttypmod =
     (if sint atttypmod < 4 then None
      else let m = atttypmod - 4 in
           Some (uint (signed_drop_bit 16 m AND 0xFFFF), uint (m AND 0xFFFF)))"

definition pgNumericToCommon :: "pgext \<Rightarrow> byte list \<Rightarrow> (int \<times> int) option \<Rightarrow> bool \<Rightarrow> common" where
  "pgNumericToCommon ext name m optional =
     (case m of
        Some (precision, scale) \<Rightarrow>
          (case NewDecimal ext name precision scale optional of
             Some c \<Rightarrow> c | None \<Rightarrow> NewBigDecimal ext name optional)
      | None \<Rightarrow> NewBigDecimal ext name optional)"

definition pgOIDToTypeName :: "uint32 \<Rightarrow> string option" where
  "pgOIDToTypeName oid = (if oid = 1266 then Some ''timetz'' else None)"

definition column_type_name :: "pgext \<Rightarrow> uint32 \<Rightarrow> string" where
  "column_type_name ext oid =
     (case TypeForOID ext oid of
        Some name \<Rightarrow> name
      | None \<Rightarrow> (case pgOIDToTypeName oid of Some name \<Rightarrow> name | None \<Rightarrow> []))"

definition column_to_common :: "pgext \<Rightarrow> RelationMessageColumn \<Rightarrow> common" where
  "column_to_common ext col =
     (let typeName = column_type_name ext (Column_DataType col) in
      if isPgNumericType typeName then
        pgNumericToCommon ext (Column_Name col) (pgNumericModFromAtttypmod (TypeModifier col)) True
      else Common (Column_Name col) (pgTypeNameToCommonType typeName) True [])"

definition relationMessageToSchema :: "pgext \<Rightarrow> RelationMessage \<Rightarrow> common" where
  "relationMessageToSchema ext rel =
     Common (RelationName rel) CObject False (map (column_to_common ext) (Columns rel))"

section \<open>Decimals\<close>

definition pow10 :: "int \<Rightarrow> int" where
  "pow10 n = 10 ^ nat n"

definition CanonicaliseDecimal :: "pgext \<Rightarrow> byte list \<Rightarrow> int \<Rightarrow> int \<Rightarrow> byte list option" where
  "CanonicaliseDecimal ext t precision scale =
     (case Decimal_Parse ext precision scale t of
        Some unscaled \<Rightarrow> Decimal_Format ext precision scale unscaled
      | None \<Rightarrow>
         (case Rat_SetString ext t of
            None \<Rightarrow> None
          | Some (num, den) \<Rightarrow>
             if \<not> den dvd num * pow10 scale then None
             else Decimal_Format ext precision scale (num * pow10 scale div den)))"

definition CanonicaliseBigDecimal :: "pgext \<Rightarrow> byte list \<Rightarrow> byte list option" where
  "CanonicaliseBigDecimal ext t =
     (case ParseBigDecimal ext t of
        None \<Rightarrow> None | Some (unscaled, scale) \<Rightarrow> FormatBigDecimal ext unscaled scale)"

definition sanitizeTsrange :: "byte list \<Rightarrow> byte list" where
  "sanitizeTsrange s = filter (\<lambda>b. b \<noteq> 34) s"

section \<open>Column values\<close>

definition special_numeric :: "byte list \<Rightarrow> bool" where
  "special_numeric t \<longleftrightarrow> bytes_string t \<in> {''NaN'', ''Infinity'', ''-Infinity''}"

definition decode_numeric :: "pgext \<Rightarrow> byte list \<Rightarrow> uint32 \<Rightarrow> pg_any option" where
  "decode_numeric ext data modifier =
     (if special_numeric data then Some (PText data)
      else case pgNumericModFromAtttypmod modifier of
             Some (precision, scale) \<Rightarrow> map_option PText (CanonicaliseDecimal ext data precision scale)
           | None \<Rightarrow> map_option PText (CanonicaliseBigDecimal ext data))"

definition time_or_nil :: "pg_any \<Rightarrow> pg_any" where
  "time_or_nil v = (case v of PTime t \<Rightarrow> v | _ \<Rightarrow> PNil)"

text \<open>The data of a text column is a slice the parser has made, so the nil case does not arise.\<close>

definition decodeTextColumnData :: "pgext \<Rightarrow> byte list \<Rightarrow> uint32 \<Rightarrow> uint32 \<Rightarrow> pg_any option" where
  "decodeTextColumnData ext data dataType modifier =
     (case TypeForOID ext dataType of
        None \<Rightarrow> Some (PText data)
      | Some name \<Rightarrow>
         (case DecodeValue ext dataType data of
            None \<Rightarrow> None
          | Some val \<Rightarrow>
             if name = ''uuid'' then
               (case val of PUUID u \<Rightarrow> Some (PText (uuid_String ext u)) | _ \<Rightarrow> None)
             else if name = ''tsrange'' then Some (PText (sanitizeTsrange data))
             else if name = ''int2'' then (case val of PInt16 v \<Rightarrow> Some (PInt32 v) | _ \<Rightarrow> Some val)
             else if name = ''numeric'' then decode_numeric ext data modifier
             else if name = ''date'' then Some (time_or_nil val)
             else if name = ''time'' then Some (PText data)
             else if name = ''tsvector'' then Some (PText data)
             else if name = ''timestamp'' \<or> name = ''timestamptz'' then Some (time_or_nil val)
             else Some val))"

datatype decode_error =
    UnknownRelation uint32
  | ColumnDecode
  | UnknownDataType byte
  | ParseFailed pg_error
  | ContextDone

text \<open>A column on its own: null, text, or the marker of an unchanged TOAST value.\<close>

definition column_value ::
  "pgext \<Rightarrow> RelationMessageColumn \<Rightarrow> pg_any \<Rightarrow> TupleDataColumn \<Rightarrow> (decode_error, pg_any) outcome" where
  "column_value ext rc toast col =
     (if DataType col = TupleDataTypeNull then Ok PNil
      else if DataType col = TupleDataTypeToast then Ok toast
      else if DataType col = TupleDataTypeText then
        (case decodeTextColumnData ext (Data col) (Column_DataType rc) (TypeModifier rc) of
           None \<Rightarrow> Err ColumnDecode | Some v \<Rightarrow> Ok v)
      else Err (UnknownDataType (DataType col)))"

text \<open>One turn of the loop: an unchanged TOAST value is looked up in the fallback tuple.\<close>

definition tuple_value ::
  "pgext \<Rightarrow> RelationMessageColumn \<Rightarrow> pg_any \<Rightarrow> TupleData option \<Rightarrow> nat \<Rightarrow> TupleDataColumn
     \<Rightarrow> (decode_error, pg_any) outcome" where
  "tuple_value ext rc toast fallback idx col =
     (if DataType col = TupleDataTypeToast then
        (case fallback of
           Some t \<Rightarrow> if idx < length (Tuple_Columns t) then column_value ext rc toast (Tuple_Columns t ! idx)
                     else Ok toast
         | None \<Rightarrow> Ok toast)
      else column_value ext rc toast col)"

type_synonym row_values = "byte list \<rightharpoonup> pg_any"

fun tuple_loop ::
  "pgext \<Rightarrow> RelationMessageColumn list \<Rightarrow> pg_any \<Rightarrow> TupleData option \<Rightarrow> nat \<Rightarrow> TupleDataColumn list
     \<Rightarrow> row_values \<Rightarrow> (decode_error, row_values) outcome" where
  "tuple_loop ext rcs toast fallback idx [] vals = Ok vals"
| "tuple_loop ext rcs toast fallback idx (col # cols) vals =
     (if length rcs \<le> idx then Ok vals
      else obind (tuple_value ext (rcs ! idx) toast fallback idx col) (\<lambda>v.
             tuple_loop ext rcs toast fallback (Suc idx) cols (vals(Column_Name (rcs ! idx) \<mapsto> v))))"

definition decodeTuple ::
  "pgext \<Rightarrow> TupleData \<Rightarrow> RelationMessage \<Rightarrow> pg_any \<Rightarrow> TupleData option \<Rightarrow> (decode_error, row_values) outcome" where
  "decodeTuple ext tuple rel toast fallback =
     tuple_loop ext (Columns rel) toast fallback 0 (Tuple_Columns tuple) Map.empty"

section \<open>Stream messages\<close>

datatype OpType =
    NoOpType | ReadOpType | InsertOpType | UpdateOpType | DeleteOpType | BeginOpType | CommitOpType
  | SnapshotCompleteOpType

record StreamMessage =
  Msg_LSN :: "string option"
  Operation :: OpType
  Msg_Schema :: "byte list"
  Msg_Table :: "byte list"
  Msg_Data :: "row_values option"
  ColumnSchema :: "common option"
  Msg_CommitTime :: instant
  BeforeData :: "row_values option"

definition empty_message :: StreamMessage where
  "empty_message =
     \<lparr>Msg_LSN = None, Operation = NoOpType, Msg_Schema = [], Msg_Table = [], Msg_Data = None,
      ColumnSchema = None, Msg_CommitTime = zero_time, BeforeData = None\<rparr>"

type_synonym relations = "uint32 \<rightharpoonup> RelationMessage"

definition row_message :: "OpType \<Rightarrow> RelationMessage \<Rightarrow> row_values \<Rightarrow> StreamMessage" where
  "row_message op rel vals =
     empty_message\<lparr>Operation := op, Msg_Schema := Namespace rel, Msg_Table := RelationName rel,
       Msg_Data := Some vals\<rparr>"

definition with_relation ::
  "relations \<Rightarrow> uint32 \<Rightarrow> (RelationMessage \<Rightarrow> (decode_error, StreamMessage option) outcome)
     \<Rightarrow> (decode_error, relations \<times> StreamMessage option) outcome" where
  "with_relation rels rid f =
     (case rels rid of
        None \<Rightarrow> Err (UnknownRelation rid)
      | Some rel \<Rightarrow> obind (f rel) (\<lambda>m. Ok (rels, m)))"

definition toStreamMessage ::
  "pgext \<Rightarrow> pg_any \<Rightarrow> Message \<Rightarrow> relations \<Rightarrow> (decode_error, relations \<times> StreamMessage option) outcome" where
  "toStreamMessage ext toast msg rels =
     (case msg of
        RelationMsg m \<Rightarrow> Ok (rels(RelationID m \<mapsto> m), None)
      | BeginMsg m \<Rightarrow> Ok (rels, Some (empty_message\<lparr>Operation := BeginOpType\<rparr>))
      | CommitMsg m \<Rightarrow> Ok (rels, Some (empty_message\<lparr>Operation := CommitOpType\<rparr>))
      | InsertMsg m \<Rightarrow> with_relation rels (Insert_RelationID m) (\<lambda>rel.
          obind (decodeTuple ext (Insert_Tuple m) rel toast None) (\<lambda>vals.
          Ok (Some (row_message InsertOpType rel vals))))
      | UpdateMsg m \<Rightarrow> with_relation rels (Update_RelationID m) (\<lambda>rel.
          obind (decodeTuple ext (NewTuple m) rel toast
                   (if OldTupleType m = UpdateMessageTupleTypeOld then OldTuple m else None)) (\<lambda>vals.
          (case OldTuple m of
             None \<Rightarrow> Ok (Some (row_message UpdateOpType rel vals))
           | Some old \<Rightarrow>
              obind (decodeTuple ext old rel toast None) (\<lambda>before.
              Ok (Some ((row_message UpdateOpType rel vals)\<lparr>BeforeData := Some before\<rparr>))))))
      | DeleteMsg m \<Rightarrow> with_relation rels (Delete_RelationID m) (\<lambda>rel.
          obind (decodeTuple ext (Delete_OldTuple m) rel toast None) (\<lambda>vals.
          Ok (Some ((row_message DeleteOpType rel vals)\<lparr>BeforeData := Some vals\<rparr>))))
      | TruncateMsg m \<Rightarrow> Ok (rels, Some empty_message)
      | TypeMsg m \<Rightarrow> Ok (rels, Some empty_message)
      | OriginMsg m \<Rightarrow> Ok (rels, Some empty_message)
      | LogicalMsg m \<Rightarrow> Ok (rels, None))"

section \<open>Processing one change\<close>

record stream_config =
  includeTxnMarkers :: bool
  slotName :: string
  unchangedToastValue :: pg_any

datatype processChangeResult =
    changeResultNoMessage | changeResultSuppressedCommitMessage | changeResultEmittedMessage

text \<open>
  The variables of \<^verbatim>\<open>streamMessages\<close>, the acknowledged LSN of the stream, the
  messages sent on its channel and the positions confirmed to the server. \<open>replyDue\<close> is
  the deadline set to the zero time by a keepalive that asks for a reply. \<open>history\<close>
  records, for the statements about the loop, the position of every emitted message (with
  \<open>True\<close>) and of every suppressed commit or heartbeat (with \<open>False\<close>), in order.
\<close>

record stream_state =
  st_relations :: relations
  schemaCache :: "uint32 \<rightharpoonup> common"
  currentTxnCommitTime :: instant
  lastEmittedLSN :: lsn
  lastEmittedCommitLSN :: lsn
  currentLSN :: lsn
  ackedLSN :: lsn
  replyDue :: bool
  messages :: "StreamMessage list"
  confirmed :: "lsn list"
  history :: "(lsn \<times> bool) list"

definition change_relation :: "Message \<Rightarrow> uint32" where
  "change_relation msg =
     (case msg of
        InsertMsg m \<Rightarrow> Insert_RelationID m
      | UpdateMsg m \<Rightarrow> Update_RelationID m
      | DeleteMsg m \<Rightarrow> Delete_RelationID m
      | _ \<Rightarrow> 0)"

definition note_transaction :: "Message \<Rightarrow> stream_state \<Rightarrow> stream_state" where
  "note_transaction msg st =
     (case msg of
        RelationMsg m \<Rightarrow> st\<lparr>schemaCache := (schemaCache st)(RelationID m := None)\<rparr>
      | BeginMsg m \<Rightarrow> st\<lparr>currentTxnCommitTime := Begin_CommitTime m\<rparr>
      | CommitMsg m \<Rightarrow> st\<lparr>currentTxnCommitTime := zero_time\<rparr>
      | _ \<Rightarrow> st)"

definition is_heartbeat :: "stream_config \<Rightarrow> Message \<Rightarrow> bool" where
  "is_heartbeat cfg msg =
     (case msg of LogicalMsg m \<Rightarrow> bytes_string (Prefix m) = ''redpanda_connect_'' @ slotName cfg | _ \<Rightarrow> False)"

definition attach_schema :: "pgext \<Rightarrow> Message \<Rightarrow> StreamMessage \<Rightarrow> stream_state \<Rightarrow> StreamMessage \<times> stream_state" where
  "attach_schema ext msg message st =
     (let relID = change_relation msg in
      if relID \<noteq> 0 then
        (case schemaCache st relID of
           Some cached \<Rightarrow> (message\<lparr>ColumnSchema := Some cached\<rparr>, st)
         | None \<Rightarrow>
            (case st_relations st relID of
               Some rel \<Rightarrow>
                 (let schema = relationMessageToSchema ext rel in
                  (message\<lparr>ColumnSchema := Some schema\<rparr>,
                   st\<lparr>schemaCache := (schemaCache st)(relID \<mapsto> schema)\<rparr>))
             | None \<Rightarrow> (message, st)))
      else (message, st))"

text \<open>\<open>cancelled\<close>: the context ends before the consumer takes the message.\<close>

definition emit_message ::
  "pgext \<Rightarrow> bool \<Rightarrow> lsn \<Rightarrow> Message \<Rightarrow> StreamMessage \<Rightarrow> stream_state
     \<Rightarrow> (decode_error, processChangeResult \<times> stream_state) outcome" where
  "emit_message ext cancelled msgLSN msg message st =
     (let (message, st) = attach_schema ext msg message st;
          message = message\<lparr>Msg_CommitTime := currentTxnCommitTime st, Msg_LSN := Some (LSN_String msgLSN)\<rparr> in
      if cancelled then Err ContextDone
      else Ok (changeResultEmittedMessage, st\<lparr>messages := messages st @ [message]\<rparr>))"

definition processChange ::
  "pgext \<Rightarrow> stream_config \<Rightarrow> bool \<Rightarrow> lsn \<Rightarrow> byte list \<Rightarrow> byte list \<Rightarrow> stream_state
     \<Rightarrow> (decode_error, processChangeResult \<times> stream_state) outcome" where
  "processChange ext cfg cancelled msgLSN data spare st0 =
     (case Parse data spare of
        Err e \<Rightarrow> Err (ParseFailed e)
      | Panic \<Rightarrow> Panic
      | Ok msg \<Rightarrow>
         let st = note_transaction msg st0 in
         obind (toStreamMessage ext (unchangedToastValue cfg) msg (st_relations st)) (\<lambda>(rels, message).
           let st = st\<lparr>st_relations := rels\<rparr> in
           case message of
             None \<Rightarrow>
               Ok (if is_heartbeat cfg msg then changeResultSuppressedCommitMessage else changeResultNoMessage, st)
           | Some message \<Rightarrow>
               if \<not> includeTxnMarkers cfg \<and> Operation message = CommitOpType then
                 Ok (changeResultSuppressedCommitMessage, st)
               else if \<not> includeTxnMarkers cfg \<and> Operation message = BeginOpType then
                 Ok (changeResultNoMessage, st)
               else emit_message ext cancelled msgLSN msg message st))"

section \<open>The streaming loop\<close>

definition commitLSN :: "bool \<Rightarrow> stream_state \<Rightarrow> bool \<times> stream_state" where
  "commitLSN force st =
     (let acked = (if ackedLSN st = lastEmittedLSN st then lastEmittedCommitLSN st else ackedLSN st) in
      if force \<or> currentLSN st < acked
      then (True, st\<lparr>currentLSN := acked, confirmed := confirmed st @ [acked]\<rparr>)
      else (False, st))"

text \<open>The status update that confirms a position.\<close>

definition commitAckedLSN :: "instant \<Rightarrow> lsn \<Rightarrow> byte list" where
  "commitAckedLSN now lsn =
     SendStandbyStatusUpdate now
       \<lparr>WALWritePosition = lsn + 1, WALFlushPosition = 0, WALApplyPosition = 0, ClientTime = zero_time,
        ReplyRequested = True\<rparr>"

definition AckLSN :: "bool \<Rightarrow> string \<Rightarrow> stream_state \<Rightarrow> stream_state option" where
  "AckLSN stopping lsn st =
     (case ParseLSN lsn of
        None \<Rightarrow> None
      | Some parsed \<Rightarrow> if stopping then None else Some (st\<lparr>ackedLSN := parsed\<rparr>))"

datatype stream_event =
    RecvTimeout | RecvError | RecvErrorResponse | RecvOther | RecvCopyData "byte list" "byte list"

datatype stream_error =
    ReceivingFailed | ErrorFromPostgres | BadKeepalive pg_error | BadXLogData pg_error
  | DecodingFailed decode_error | UnknownMessageType byte | Crashed

definition after_change :: "lsn \<Rightarrow> processChangeResult \<Rightarrow> stream_state \<Rightarrow> stream_state" where
  "after_change msgLSN result st =
     (case result of
        changeResultSuppressedCommitMessage \<Rightarrow>
          st\<lparr>lastEmittedCommitLSN := msgLSN, history := history st @ [(msgLSN, False)]\<rparr>
      | changeResultEmittedMessage \<Rightarrow>
          st\<lparr>lastEmittedLSN := msgLSN, lastEmittedCommitLSN := msgLSN, history := history st @ [(msgLSN, True)]\<rparr>
      | changeResultNoMessage \<Rightarrow> st)"

definition handle_copy_data ::
  "pgext \<Rightarrow> stream_config \<Rightarrow> bool \<Rightarrow> byte list \<Rightarrow> byte list \<Rightarrow> stream_state \<Rightarrow> stream_error option \<times> stream_state" where
  "handle_copy_data ext cfg cancelled data spare st =
     (case data of
        [] \<Rightarrow> (None, st)
      | b # buf \<Rightarrow>
         if b = 107 then
           (case ParsePrimaryKeepaliveMessage buf of
              Err e \<Rightarrow> (Some (BadKeepalive e), st)
            | Panic \<Rightarrow> (Some Crashed, st)
            | Ok pkm \<Rightarrow> (None, if Keepalive_ReplyRequested pkm then st\<lparr>replyDue := True\<rparr> else st))
         else if b = 119 then
           (case ParseXLogData buf of
              Err e \<Rightarrow> (Some (BadXLogData e), st)
            | Panic \<Rightarrow> (Some Crashed, st)
            | Ok xld \<Rightarrow>
               (let msgLSN = WALStart xld + word_of_nat (length (WALData xld)) in
                case processChange ext cfg cancelled msgLSN (WALData xld) spare st of
                  Err e \<Rightarrow> (Some (DecodingFailed e), st)
                | Panic \<Rightarrow> (Some Crashed, st)
                | Ok (result, st) \<Rightarrow> (None, after_change msgLSN result st)))
         else (Some (UnknownMessageType b), st))"

text \<open>
  One turn: confirm what is acknowledged, always if the deadline has passed (\<open>late\<close>), then
  receive and handle one message.
\<close>

definition stream_turn ::
  "pgext \<Rightarrow> stream_config \<Rightarrow> bool \<Rightarrow> bool \<Rightarrow> stream_event \<Rightarrow> stream_state
     \<Rightarrow> stream_error option \<times> stream_state" where
  "stream_turn ext cfg late cancelled ev st0 =
     (let (committed, st) = commitLSN (late \<or> replyDue st0) st0;
          st = (if committed then st\<lparr>replyDue := False\<rparr> else st) in
      case ev of
        RecvTimeout \<Rightarrow> (None, st)
      | RecvError \<Rightarrow> (Some ReceivingFailed, st)
      | RecvErrorResponse \<Rightarrow> (Some ErrorFromPostgres, st)
      | RecvOther \<Rightarrow> (None, st)
      | RecvCopyData data spare \<Rightarrow> handle_copy_data ext cfg cancelled data spare st)"

definition start_state :: "lsn \<Rightarrow> stream_state" where
  "start_state lsn =
     \<lparr>st_relations = Map.empty, schemaCache = Map.empty, currentTxnCommitTime = zero_time,
      lastEmittedLSN = lsn, lastEmittedCommitLSN = lsn, currentLSN = lsn, ackedLSN = lsn, replyDue = False,
      messages = [], confirmed = [], history = []\<rparr>"

text \<open>
  The stream with its consumer: turns of the loop, acknowledgements of one or more emitted
  messages (\<open>n\<close> counts those acknowledged; the consumer passes the position of the last of
  them), and the last confirmation when the loop ends. A turn may follow one that failed or a
  shutdown: that adds runs to those of the code and takes none away.
\<close>

definition emitted_lsns :: "stream_state \<Rightarrow> lsn list" where
  "emitted_lsns st = map fst (filter snd (history st))"

inductive stream_step ::
  "pgext \<Rightarrow> stream_config \<Rightarrow> stream_state \<times> nat \<Rightarrow> stream_state \<times> nat \<Rightarrow> bool" for ext cfg where
  step_turn: "stream_turn ext cfg late cancelled ev st = (r, st') \<Longrightarrow> stream_step ext cfg (st, n) (st', n)"
| step_ack: "n < n' \<Longrightarrow> n' \<le> length (emitted_lsns st) \<Longrightarrow>
    AckLSN False (LSN_String (emitted_lsns st ! (n' - 1))) st = Some st' \<Longrightarrow>
    stream_step ext cfg (st, n) (st', n')"
| step_shutdown: "stream_step ext cfg (st, n) (snd (commitLSN False st), n)"

inductive stream_reach :: "pgext \<Rightarrow> stream_config \<Rightarrow> lsn \<Rightarrow> stream_state \<times> nat \<Rightarrow> bool" for ext cfg lsn where
  reach_start: "stream_reach ext cfg lsn (start_state lsn, 0)"
| reach_step: "stream_reach ext cfg lsn s \<Longrightarrow> stream_step ext cfg s s' \<Longrightarrow> stream_reach ext cfg lsn s'"

inductive_cases stream_step_elim: "stream_step ext cfg (st, n) (st', n')"

section \<open>Nothing unacknowledged is confirmed\<close>

text \<open>
  A confirmed position is safe when it is the start or the position of an entry of the
  history up to which every emitted message is acknowledged.
\<close>

definition safe_position :: "lsn \<Rightarrow> stream_state \<Rightarrow> nat \<Rightarrow> lsn \<Rightarrow> bool" where
  "safe_position lsn st n c \<longleftrightarrow>
     (\<exists>j \<le> length (history st). c = (lsn # map fst (history st)) ! j \<and>
        length (filter snd (take j (history st))) \<le> n)"

definition stream_inv :: "lsn \<Rightarrow> stream_state \<times> nat \<Rightarrow> bool" where
  "stream_inv lsn s \<longleftrightarrow>
     (case s of (st, n) \<Rightarrow>
        n \<le> length (emitted_lsns st) \<and>
        lastEmittedLSN st = last (lsn # emitted_lsns st) \<and>
        lastEmittedCommitLSN st = last (lsn # map fst (history st)) \<and>
        ackedLSN st = (lsn # emitted_lsns st) ! n \<and>
        (distinct (lsn # emitted_lsns st) \<longrightarrow> list_all (safe_position lsn st n) (confirmed st)))"

lemma filter_nth_prefix:
  "0 < n \<Longrightarrow> n \<le> length (filter P xs) \<Longrightarrow>
     \<exists>j \<le> length xs. 0 < j \<and> xs ! (j - 1) = filter P xs ! (n - 1) \<and> length (filter P (take j xs)) = n"
proof (induction xs rule: rev_induct)
  case (snoc x xs)
  show ?case
  proof (cases "n \<le> length (filter P xs)")
    case True
    with snoc obtain j where j: "j \<le> length xs" "0 < j" "xs ! (j - 1) = filter P xs ! (n - 1)"
      "length (filter P (take j xs)) = n" by auto
    moreover have "n - 1 < length (filter P xs)" "j - 1 < length xs" using True snoc.prems(1) j by linarith+
    ultimately show ?thesis by (intro exI [of _ j]) (simp add: nth_append)
  next
    case False
    then have "P x" "n = Suc (length (filter P xs))" using snoc.prems by (auto split: if_splits)
    then show ?thesis by (intro exI [of _ "Suc (length xs)"]) (simp add: nth_append)
  qed
qed simp

lemma safe_position_mono:
  assumes "safe_position lsn st n c" "history st' = history st @ ys" "n \<le> n'"
  shows "safe_position lsn st' n' c"
  using assms unfolding safe_position_def by (force simp: nth_append nth_Cons split: nat.splits)

lemma last_Cons_nth: "last (x # xs) = (x # xs) ! length xs"
  using last_conv_nth [of "x # xs"] by simp

lemma stream_invD:
  assumes "stream_inv lsn (st, n)"
  shows "n \<le> length (emitted_lsns st)"
    and "lastEmittedLSN st = (lsn # emitted_lsns st) ! length (emitted_lsns st)"
    and "lastEmittedCommitLSN st = (lsn # map fst (history st)) ! length (history st)"
    and "ackedLSN st = (lsn # emitted_lsns st) ! n"
  using assms last_Cons_nth [of lsn "emitted_lsns st"] last_Cons_nth [of lsn "map fst (history st)"]
  unfolding stream_inv_def by (simp_all only: prod.case length_map)

lemma acked_safe:
  assumes "stream_inv lsn (st, n)" "distinct (lsn # emitted_lsns st)"
  shows "safe_position lsn st n (if ackedLSN st = lastEmittedLSN st then lastEmittedCommitLSN st else ackedLSN st)"
proof (cases "ackedLSN st = lastEmittedLSN st")
  case True
  have "(lsn # emitted_lsns st) ! n = (lsn # emitted_lsns st) ! length (emitted_lsns st)"
    using True stream_invD [OF assms(1)] by (simp only:)
  then have n: "n = length (emitted_lsns st)"
    using nth_eq_iff_index_eq [OF assms(2), of n "length (emitted_lsns st)"] stream_invD(1) [OF assms(1)] by simp
  show ?thesis
    using True n stream_invD(3) [OF assms(1)] by (auto simp: safe_position_def emitted_lsns_def intro!: exI [of _ "length (history st)"])
next
  case False
  show ?thesis
  proof (cases "n = 0")
    case True
    then show ?thesis using False assms(1) by (auto simp: safe_position_def stream_inv_def)
  next
    case n: False
    then obtain j where j: "j \<le> length (history st)" "0 < j"
      "history st ! (j - 1) = filter snd (history st) ! (n - 1)" "length (filter snd (take j (history st))) = n"
      using filter_nth_prefix [of n snd "history st"] assms(1)
      by (auto simp: stream_inv_def emitted_lsns_def)
    have "n - 1 < length (filter snd (history st))" "j - 1 < length (history st)"
      using n j stream_invD(1) [OF assms(1)] by (simp_all add: emitted_lsns_def)
    moreover have "ackedLSN st = emitted_lsns st ! (n - 1)"
      using n stream_invD(4) [OF assms(1)] by (simp add: nth_Cons')
    ultimately have "ackedLSN st = (lsn # map fst (history st)) ! j"
      using j by (simp add: emitted_lsns_def nth_Cons')
    then show ?thesis using False j by (auto simp: safe_position_def)
  qed
qed

lemma commitLSN_inv:
  assumes "stream_inv lsn (st, n)" "commitLSN force st = (b, st')"
  shows "stream_inv lsn (st', n) \<and> history st' = history st"
proof -
  have h: "history st' = history st" and "confirmed st' = confirmed st \<or>
      confirmed st' = confirmed st @ [if ackedLSN st = lastEmittedLSN st then lastEmittedCommitLSN st else ackedLSN st]"
    and same: "lastEmittedLSN st' = lastEmittedLSN st" "lastEmittedCommitLSN st' = lastEmittedCommitLSN st"
      "ackedLSN st' = ackedLSN st"
    using assms(2) by (auto simp: commitLSN_def Let_def split: if_splits)
  moreover have "emitted_lsns st' = emitted_lsns st" using h by (simp add: emitted_lsns_def)
  moreover have "safe_position lsn st' n c" if "safe_position lsn st n c" for c
    using that h by (simp add: safe_position_def)
  ultimately show ?thesis
    using assms(1) acked_safe [OF assms(1)] by (auto simp: stream_inv_def list_all_iff)
qed

lemma stream_inv_frame:
  assumes "stream_inv lsn (st, n)" "history st' = history st" "lastEmittedLSN st' = lastEmittedLSN st"
    "lastEmittedCommitLSN st' = lastEmittedCommitLSN st" "ackedLSN st' = ackedLSN st" "confirmed st' = confirmed st"
  shows "stream_inv lsn (st', n)"
  using assms by (simp add: stream_inv_def emitted_lsns_def safe_position_def [abs_def])

lemma emit_message_frame:
  assumes "emit_message ext cancelled msgLSN msg m st = Ok (res, st')"
  shows "history st' = history st \<and> lastEmittedLSN st' = lastEmittedLSN st \<and>
    lastEmittedCommitLSN st' = lastEmittedCommitLSN st \<and> ackedLSN st' = ackedLSN st \<and>
    confirmed st' = confirmed st \<and> currentLSN st' = currentLSN st \<and> st_relations st' = st_relations st \<and>
    replyDue st' = replyDue st"
  using assms
  by (auto simp: emit_message_def attach_schema_def Let_def split: if_splits option.splits)

lemma note_transaction_frame:
  "history (note_transaction msg st) = history st \<and> lastEmittedLSN (note_transaction msg st) = lastEmittedLSN st \<and>
    lastEmittedCommitLSN (note_transaction msg st) = lastEmittedCommitLSN st \<and>
    ackedLSN (note_transaction msg st) = ackedLSN st \<and> confirmed (note_transaction msg st) = confirmed st \<and>
    currentLSN (note_transaction msg st) = currentLSN st \<and> st_relations (note_transaction msg st) = st_relations st"
  by (simp add: note_transaction_def split: Message.split)

lemma processChange_frame:
  assumes "processChange ext cfg cancelled msgLSN data spare st = Ok (res, st')"
  shows "history st' = history st \<and> lastEmittedLSN st' = lastEmittedLSN st \<and>
    lastEmittedCommitLSN st' = lastEmittedCommitLSN st \<and> ackedLSN st' = ackedLSN st \<and>
    confirmed st' = confirmed st \<and> currentLSN st' = currentLSN st"
proof -
  obtain msg where msg: "Parse data spare = Ok msg"
    using assms by (auto simp: processChange_def split: outcome.splits)
  obtain rels message where ts:
    "toStreamMessage ext (unchangedToastValue cfg) msg (st_relations (note_transaction msg st)) = Ok (rels, message)"
    using assms msg by (auto simp: processChange_def Let_def)
  show ?thesis
    using assms msg ts note_transaction_frame [of msg st]
    by (auto simp: processChange_def Let_def dest!: emit_message_frame split: option.splits if_splits)
qed

lemma after_change_inv:
  assumes "stream_inv lsn (st, n)"
  shows "stream_inv lsn (after_change msgLSN res st, n)"
proof -
  let ?st = "after_change msgLSN res st"
  obtain ys where ys: "history ?st = history st @ ys"
    by (cases res) (auto simp: after_change_def)
  have "safe_position lsn ?st n c" if "safe_position lsn st n c" for c
    using safe_position_mono [OF that ys] by simp
  moreover have "confirmed ?st = confirmed st" by (cases res) (auto simp: after_change_def)
  ultimately show ?thesis
    using assms
    by (cases res)
      (auto simp: stream_inv_def after_change_def emitted_lsns_def nth_append nth_Cons' list_all_iff)
qed

lemma handle_copy_data_inv:
  assumes "stream_inv lsn (st, n)" "handle_copy_data ext cfg cancelled data spare st = (r, st')"
  shows "stream_inv lsn (st', n)"
proof -
  have reply: "stream_inv lsn (st\<lparr>replyDue := True\<rparr>, n)" using assms(1) by (rule stream_inv_frame) simp_all
  have change: "stream_inv lsn (after_change msgLSN res st2, n)"
    if "processChange ext cfg cancelled msgLSN d spare st = Ok (res, st2)" for msgLSN res st2 d
    using processChange_frame [OF that] by (intro after_change_inv stream_inv_frame [OF assms(1)]) auto
  show ?thesis
    using assms reply change
    by (auto simp: handle_copy_data_def Let_def split: list.splits if_splits outcome.splits)
qed

lemma stream_step_inv:
  assumes "stream_inv lsn (st, n)" "stream_step ext cfg (st, n) (st', n')"
  shows "stream_inv lsn (st', n')"
  using assms(2)
proof (rule stream_step_elim)
  fix late cancelled ev r
  assume n: "n' = n" and turn: "stream_turn ext cfg late cancelled ev st = (r, st')"
  obtain b st1 where c: "commitLSN (late \<or> replyDue st) st = (b, st1)" by fastforce
  have i1: "stream_inv lsn (st1, n)" using commitLSN_inv [OF assms(1) c] by simp
  have i2: "stream_inv lsn (if b then st1\<lparr>replyDue := False\<rparr> else st1, n)"
    by (rule stream_inv_frame [OF i1]) simp_all
  show ?thesis
    using n turn i2 c
    by (cases ev) (auto simp: stream_turn_def Let_def dest: handle_copy_data_inv split: if_splits)
next
  assume n: "n < n'" "n' \<le> length (emitted_lsns st)"
    and ack: "AckLSN False (LSN_String (emitted_lsns st ! (n' - Suc 0))) st = Some st'"
  have s: "st' = st\<lparr>ackedLSN := emitted_lsns st ! (n' - 1)\<rparr>"
    using ack LSN_String_parse [of "[]"] by (auto simp: AckLSN_def)
  moreover have "safe_position lsn st' n' c" if "safe_position lsn st n c" for c
    using safe_position_mono [OF that, of st' "[]" n'] n(1) s by simp
  ultimately show ?thesis
    using assms(1) n by (auto simp: stream_inv_def emitted_lsns_def nth_Cons' list_all_iff)
next
  assume "st' = snd (commitLSN False st)" "n' = n"
  then show ?thesis using commitLSN_inv [OF assms(1)] by (metis prod.collapse)
qed

lemma stream_reach_inv:
  assumes "stream_reach ext cfg lsn s"
  shows "stream_inv lsn s"
  using assms
proof (induction rule: stream_reach.induct)
  case reach_start
  then show ?case by (simp add: stream_inv_def start_state_def emitted_lsns_def)
next
  case (reach_step s s')
  then show ?case using stream_step_inv by (cases s; cases s') blast
qed


section \<open>An example run\<close>

definition example_pgext :: pgext where
  "example_pgext =
     \<lparr>TypeForOID = (\<lambda>_. None), DecodeValue = (\<lambda>_ _. None), uuid_String = (\<lambda>b. b),
      Decimal_Parse = (\<lambda>_ _ _. None), Decimal_Format = (\<lambda>_ _ _. None), Rat_SetString = (\<lambda>_. None),
      ParseBigDecimal = (\<lambda>_. None), FormatBigDecimal = (\<lambda>_ _. None), NewDecimal = (\<lambda>_ _ _ _. None),
      NewBigDecimal = (\<lambda>name opt. Common name CBigDecimal opt [])\<rparr>"

definition example_config :: stream_config where
  "example_config = \<lparr>includeTxnMarkers = False, slotName = ''s'', unchangedToastValue = PNil\<rparr>"

definition wal_event :: "nat \<Rightarrow> byte list \<Rightarrow> stream_event" where
  "wal_event p data = RecvCopyData (119 # enc_word 8 (word_of_nat p :: lsn) @ replicate 16 0 @ data) []"

definition relation_bytes :: "byte list" where
  "relation_bytes = [82, 0, 0, 0, 1, 0, 116, 0, 100, 0, 1, 0, 97, 0, 0, 0, 0, 25, 255, 255, 255, 255]"

definition insert_bytes :: "byte list" where
  "insert_bytes = [73, 0, 0, 0, 1, 78, 0, 1, 116, 0, 0, 0, 1, 120]"

definition commit_bytes :: "byte list" where
  "commit_bytes = 67 # 0 # replicate 24 0"

definition example_relation :: RelationMessage where
  "example_relation =
     \<lparr>RelationID = 1, Namespace = [], RelationName = [116], ReplicaIdentity = 100, ColumnNum = 1,
      Columns = [\<lparr>Column_Flags = 0, Column_Name = [97], Column_DataType = 25, TypeModifier = 4294967295\<rparr>]\<rparr>"

definition example_insert :: InsertMessage where
  "example_insert =
     \<lparr>Insert_RelationID = 1, Insert_Tuple = \<lparr>Tuple_ColumnNum = 1,
        Tuple_Columns = [\<lparr>DataType = TupleDataTypeText, Length = 1, Data = [120]\<rparr>]\<rparr>\<rparr>"

lemma Parse_relation_bytes: "Parse relation_bytes spare = Ok (RelationMsg example_relation)"
proof -
  have "relation_bytes = enc_message (RelationMsg example_relation) @ []" by code_simp
  moreover have "wf_message (RelationMsg example_relation)" by code_simp
  ultimately show ?thesis by (metis Parse_enc append_Nil2 le0 min_body.simps(6))
qed

lemma Parse_insert_bytes: "Parse insert_bytes spare = Ok (InsertMsg example_insert)"
proof -
  have e: "insert_bytes = enc_message (InsertMsg example_insert) @ []" by code_simp
  have "wf_message (InsertMsg example_insert)" by code_simp
  moreover have "min_body (InsertMsg example_insert) \<le> length (enc_body (InsertMsg example_insert) @ [])" by code_simp
  ultimately show ?thesis unfolding e by (rule Parse_enc)
qed

lemma Parse_commit_bytes: "\<exists>m. Parse commit_bytes spare = Ok (CommitMsg m)"
  by (simp add: commit_bytes_def Parse_def message_type_def CommitMessage_Decode_def decodeLSN_def
      decodeTime_def read_be_def be_read_def decodeByte_def)

lemma ParseXLogData_event:
  "\<exists>x. ParseXLogData (enc_word 8 (p :: lsn) @ replicate 16 0 @ data) = Ok x \<and> WALStart x = p \<and> WALData x = data"
proof -
  have r: "replicate 16 (0 :: byte) @ data = enc_word 8 (0 :: lsn) @ replicate 8 0 @ data" by code_simp
  have "\<exists>t. decodeTime (replicate 8 0 @ data) = Ok (t, data)"
    by (simp add: decodeTime_def read_be_def be_read_def)
  then obtain t where "decodeTime (replicate 8 0 @ data) = Ok (t, data)" ..
  then show ?thesis by (simp add: ParseXLogData_def r lsn_codec.dec_enc)
qed

text \<open>A state in which the next turn has nothing to confirm.\<close>

definition nothing_to_confirm :: "stream_state \<Rightarrow> bool" where
  "nothing_to_confirm st \<longleftrightarrow> \<not> replyDue st \<and>
     \<not> currentLSN st < (if ackedLSN st = lastEmittedLSN st then lastEmittedCommitLSN st else ackedLSN st)"

lemma wal_turn:
  assumes "nothing_to_confirm st"
    and "processChange ext cfg False (word_of_nat p + word_of_nat (length data)) data [] st = Ok (res, st')"
  shows "stream_turn ext cfg False False (wal_event p data) st =
    (None, after_change (word_of_nat p + word_of_nat (length data)) res st')"
proof -
  obtain x where x: "ParseXLogData (enc_word 8 (word_of_nat p :: lsn) @ replicate 16 0 @ data) = Ok x"
    "WALStart x = word_of_nat p" "WALData x = data"
    using ParseXLogData_event by blast
  have "commitLSN False st = (False, st)" using assms(1) by (simp add: commitLSN_def nothing_to_confirm_def Let_def)
  then show ?thesis
    using assms x by (simp add: stream_turn_def handle_copy_data_def wal_event_def nothing_to_confirm_def)
qed

lemma reach_turn:
  "stream_reach ext cfg lsn (st, n) \<Longrightarrow> stream_turn ext cfg late cancelled ev st = (r, st') \<Longrightarrow>
     stream_reach ext cfg lsn (st', n)"
  by (rule reach_step) (auto intro: step_turn)

lemma reach_ack:
  assumes "stream_reach ext cfg lsn (st, n)" "n < n'" "n' \<le> length (emitted_lsns st)"
  shows "stream_reach ext cfg lsn (st\<lparr>ackedLSN := emitted_lsns st ! (n' - 1)\<rparr>, n')"
proof -
  have "AckLSN False (LSN_String (emitted_lsns st ! (n' - 1))) st = Some (st\<lparr>ackedLSN := emitted_lsns st ! (n' - 1)\<rparr>)"
    using LSN_String_parse [of "[]"] by (simp add: AckLSN_def)
  then show ?thesis using reach_step [OF assms(1) step_ack [OF assms(2,3)]] by simp
qed

text \<open>The example messages: a relation, an insert into it, a suppressed commit.\<close>

lemma relation_turn:
  assumes "nothing_to_confirm st"
  shows "stream_turn example_pgext example_config False False (wal_event p relation_bytes) st =
    (None, st\<lparr>st_relations := (st_relations st)(1 \<mapsto> example_relation), schemaCache := (schemaCache st)(1 := None)\<rparr>)"
proof -
  have "processChange example_pgext example_config False (word_of_nat p + word_of_nat (length relation_bytes))
      relation_bytes [] st = Ok (changeResultNoMessage,
        st\<lparr>st_relations := (st_relations st)(1 \<mapsto> example_relation), schemaCache := (schemaCache st)(1 := None)\<rparr>)"
    by (simp add: processChange_def Parse_relation_bytes note_transaction_def toStreamMessage_def
        is_heartbeat_def example_relation_def)
  from wal_turn [OF assms this] show ?thesis by (simp add: after_change_def)
qed

lemma example_row:
  "\<exists>vals. decodeTuple example_pgext (Insert_Tuple example_insert) example_relation PNil None = Ok vals"
  by (simp add: decodeTuple_def example_insert_def example_relation_def tuple_value_def column_value_def
      decodeTextColumnData_def example_pgext_def TupleDataTypeNull_def TupleDataTypeToast_def TupleDataTypeText_def)

lemma insert_change:
  assumes "st_relations st 1 = Some example_relation"
  shows "\<exists>st'. processChange example_pgext example_config False lsn insert_bytes [] st = Ok (changeResultEmittedMessage, st') \<and>
    history st' = history st \<and> st_relations st' = st_relations st \<and> replyDue st' = replyDue st \<and>
    currentLSN st' = currentLSN st \<and> ackedLSN st' = ackedLSN st \<and> confirmed st' = confirmed st"
proof -
  obtain vals where d: "decodeTuple example_pgext (Insert_Tuple example_insert) example_relation PNil None = Ok vals"
    using example_row by blast
  have r: "toStreamMessage example_pgext PNil (InsertMsg example_insert) (st_relations st) =
      Ok (st_relations st, Some (row_message InsertOpType example_relation vals))"
    using d assms by (simp add: toStreamMessage_def with_relation_def example_insert_def)
  define m where "m = row_message InsertOpType example_relation vals"
  have op: "Operation m = InsertOpType" by (simp add: m_def row_message_def)
  have e: "processChange example_pgext example_config False lsn insert_bytes [] st =
      emit_message example_pgext False lsn (InsertMsg example_insert) m st"
    using r op
    by (simp add: processChange_def Parse_insert_bytes note_transaction_def example_config_def m_def)
  have "\<exists>st'. emit_message example_pgext False lsn (InsertMsg example_insert) m st = Ok (changeResultEmittedMessage, st')"
    by (auto simp: emit_message_def Let_def split: prod.split)
  then obtain st' where st': "emit_message example_pgext False lsn (InsertMsg example_insert) m st =
      Ok (changeResultEmittedMessage, st')" by blast
  show ?thesis using e st' emit_message_frame [OF st'] by auto
qed

lemma insert_turn:
  assumes "nothing_to_confirm st" "st_relations st 1 = Some example_relation"
  shows "\<exists>st'. stream_turn example_pgext example_config False False (wal_event p insert_bytes) st = (None, st') \<and>
    history st' = history st @ [(word_of_nat p + 14, True)] \<and> lastEmittedLSN st' = word_of_nat p + 14 \<and>
    lastEmittedCommitLSN st' = word_of_nat p + 14 \<and> st_relations st' = st_relations st \<and>
    replyDue st' = replyDue st \<and> currentLSN st' = currentLSN st \<and> ackedLSN st' = ackedLSN st \<and>
    confirmed st' = confirmed st"
proof -
  obtain st' where st': "processChange example_pgext example_config False
      (word_of_nat p + word_of_nat (length insert_bytes)) insert_bytes [] st = Ok (changeResultEmittedMessage, st')"
    and f: "history st' = history st" "st_relations st' = st_relations st" "replyDue st' = replyDue st"
      "currentLSN st' = currentLSN st" "ackedLSN st' = ackedLSN st" "confirmed st' = confirmed st"
    using insert_change [OF assms(2)] by blast
  have "word_of_nat (length insert_bytes) = (14 :: lsn)" by (simp add: insert_bytes_def)
  with wal_turn [OF assms(1) st'] show ?thesis using f by (simp add: after_change_def)
qed

lemma commit_turn:
  assumes "nothing_to_confirm st"
  shows "\<exists>st'. stream_turn example_pgext example_config False False (wal_event p commit_bytes) st = (None, st') \<and>
    history st' = history st @ [(word_of_nat p + 26, False)] \<and> lastEmittedLSN st' = lastEmittedLSN st \<and>
    lastEmittedCommitLSN st' = word_of_nat p + 26 \<and> replyDue st' = replyDue st \<and>
    currentLSN st' = currentLSN st \<and> ackedLSN st' = ackedLSN st \<and> confirmed st' = confirmed st"
proof -
  obtain m where m: "Parse commit_bytes [] = Ok (CommitMsg m)" using Parse_commit_bytes by blast
  have "processChange example_pgext example_config False (word_of_nat p + word_of_nat (length commit_bytes))
      commit_bytes [] st = Ok (changeResultSuppressedCommitMessage, st\<lparr>currentTxnCommitTime := zero_time\<rparr>)"
    by (simp add: processChange_def m note_transaction_def toStreamMessage_def example_config_def)
  moreover have "word_of_nat (length commit_bytes) = (26 :: lsn)" by (simp add: commit_bytes_def)
  ultimately show ?thesis using wal_turn [OF assms] by (simp add: after_change_def)
qed

lemma confirm_turn:
  assumes "currentLSN st < (if ackedLSN st = lastEmittedLSN st then lastEmittedCommitLSN st else ackedLSN st)"
  shows "\<exists>st'. stream_turn ext cfg False False RecvTimeout st = (None, st') \<and> history st' = history st \<and>
    confirmed st' = confirmed st @ [if ackedLSN st = lastEmittedLSN st then lastEmittedCommitLSN st else ackedLSN st]"
  using assms by (simp add: stream_turn_def commitLSN_def Let_def)

text \<open>Rows at the positions \<open>ps\<close>, then a commit, then the acknowledgement of the first row.\<close>

lemma rows_reach:
  assumes "stream_reach example_pgext example_config 100 (st, 0)" "st_relations st 1 = Some example_relation"
    "currentLSN st = 100" "ackedLSN st = 100" "\<not> replyDue st" "confirmed st = []"
    "lastEmittedLSN st = 100 \<longrightarrow> lastEmittedCommitLSN st = 100"
    "\<forall>p\<in>set ps. (word_of_nat p :: lsn) + 14 \<noteq> 100"
  shows "\<exists>st'. stream_reach example_pgext example_config 100 (st', 0) \<and>
    history st' = history st @ map (\<lambda>p. (word_of_nat p + 14, True)) ps \<and> st_relations st' 1 = Some example_relation \<and>
    currentLSN st' = 100 \<and> ackedLSN st' = 100 \<and> \<not> replyDue st' \<and> confirmed st' = [] \<and>
    lastEmittedLSN st' = last (lastEmittedLSN st # map (\<lambda>p. word_of_nat p + 14) ps)"
  using assms
proof (induction ps arbitrary: st)
  case Nil
  then show ?case by (intro exI [of _ st]) simp
next
  case (Cons p ps)
  have "nothing_to_confirm st" using Cons.prems by (simp add: nothing_to_confirm_def)
  from insert_turn [OF this Cons.prems(2), of p] obtain st1 where
    t: "stream_turn example_pgext example_config False False (wal_event p insert_bytes) st = (None, st1)"
    and s: "history st1 = history st @ [(word_of_nat p + 14, True)]" "lastEmittedLSN st1 = word_of_nat p + 14"
      "st_relations st1 = st_relations st" "replyDue st1 = replyDue st" "currentLSN st1 = currentLSN st"
      "ackedLSN st1 = ackedLSN st" "confirmed st1 = confirmed st" by auto
  from Cons.IH [OF reach_turn [OF Cons.prems(1) t]] Cons.prems s obtain st' where
    "stream_reach example_pgext example_config 100 (st', 0)"
    "history st' = history st1 @ map (\<lambda>p. (word_of_nat p + 14, True)) ps" "st_relations st' 1 = Some example_relation"
    "currentLSN st' = 100" "ackedLSN st' = 100" "\<not> replyDue st'" "confirmed st' = []"
    "lastEmittedLSN st' = last (lastEmittedLSN st1 # map (\<lambda>p. word_of_nat p + 14) ps)" by auto
  then show ?case using s by (intro exI [of _ st']) simp
qed

lemma first_row_acked:
  assumes "ps \<noteq> []" "\<forall>p\<in>set ps. (word_of_nat p :: lsn) + 14 \<noteq> 100"
  shows "\<exists>st. stream_reach example_pgext example_config 100 (st, 1) \<and>
    history st = map (\<lambda>p. (word_of_nat p + 14, True)) ps @ [(word_of_nat q + 26, False)] \<and>
    lastEmittedLSN st = word_of_nat (last ps) + 14 \<and> lastEmittedCommitLSN st = word_of_nat q + 26 \<and>
    currentLSN st = 100 \<and> ackedLSN st = word_of_nat (hd ps) + 14 \<and> \<not> replyDue st \<and> confirmed st = []"
proof -
  have start: "nothing_to_confirm (start_state 100)" by (simp add: nothing_to_confirm_def start_state_def)
  let ?st0 = "(start_state 100)\<lparr>st_relations := (st_relations (start_state 100))(1 \<mapsto> example_relation),
      schemaCache := (schemaCache (start_state 100))(1 := None)\<rparr>"
  have "stream_reach example_pgext example_config 100 (?st0, 0)"
    by (rule reach_turn [OF reach_start relation_turn [OF start]])
  from rows_reach [OF this, of ps] assms(2) obtain st1 where
    r: "stream_reach example_pgext example_config 100 (st1, 0)"
    and s: "history st1 = map (\<lambda>p. (word_of_nat p + 14, True)) ps" "currentLSN st1 = 100" "ackedLSN st1 = 100"
      "\<not> replyDue st1" "confirmed st1 = []" "lastEmittedLSN st1 = word_of_nat (last ps) + 14"
    using assms(1) by (auto simp: start_state_def last_map)
  have ne: "lastEmittedLSN st1 \<noteq> 100" using assms s(6) by auto
  then have "nothing_to_confirm st1" using s by (simp add: nothing_to_confirm_def)
  from commit_turn [OF this, of q] obtain st2 where
    t: "stream_turn example_pgext example_config False False (wal_event q commit_bytes) st1 = (None, st2)"
    and s2: "history st2 = history st1 @ [(word_of_nat q + 26, False)]" "lastEmittedLSN st2 = lastEmittedLSN st1"
      "lastEmittedCommitLSN st2 = word_of_nat q + 26" "replyDue st2 = replyDue st1" "currentLSN st2 = currentLSN st1"
      "confirmed st2 = confirmed st1" by auto
  have e: "emitted_lsns st2 = map (\<lambda>p. word_of_nat p + 14) ps" by (simp add: emitted_lsns_def s2 s filter_map comp_def)
  then have "stream_reach example_pgext example_config 100 (st2\<lparr>ackedLSN := emitted_lsns st2 ! (1 - 1)\<rparr>, 1)"
    using assms(1) by (intro reach_ack [OF reach_turn [OF r t]]) (auto simp: Suc_le_eq)
  moreover have "emitted_lsns st2 ! (1 - 1) = word_of_nat (hd ps) + 14" using e assms(1) by (simp add: hd_conv_nth)
  ultimately show ?thesis
    using s s2 by (intro exI [of _ "st2\<lparr>ackedLSN := emitted_lsns st2 ! (1 - 1)\<rparr>"]) simp
qed



section \<open>Liveness of confirmations\<close>

lemma handle_copy_data_frame:
  assumes "handle_copy_data ext cfg cancelled data spare st = (r, st')"
  shows "confirmed st' = confirmed st \<and> currentLSN st' = currentLSN st"
proof -
  have "confirmed (after_change l res st2) = confirmed st \<and> currentLSN (after_change l res st2) = currentLSN st"
    if "processChange ext cfg cancelled l d spare st = Ok (res, st2)" for l d res st2
    using processChange_frame [OF that] by (cases res) (auto simp: after_change_def)
  then show ?thesis
    using assms by (auto simp: handle_copy_data_def Let_def split: list.splits if_splits outcome.splits)
qed

lemma stream_turn_confirms:
  assumes "stream_turn ext cfg late cancelled ev st = (r, st')"
  shows "confirmed st' = confirmed (snd (commitLSN (late \<or> replyDue st) st)) \<and>
    currentLSN st' = currentLSN (snd (commitLSN (late \<or> replyDue st) st))"
proof -
  obtain b st1 where c: "commitLSN (late \<or> replyDue st) st = (b, st1)" by fastforce
  show ?thesis
    using assms c by (cases ev) (auto simp: stream_turn_def Let_def dest!: handle_copy_data_frame split: if_splits)
qed

text \<open>C21. The stream makes progress: once the consumer has acknowledged every emitted message,
  the next turn of the loop, whatever it receives and whether or not it fails, confirms the
  last position seen, the one of a suppressed commit or heartbeat behind the last message
  included, unless that position is confirmed already; and a turn after a keepalive that
  asks for a reply always sends one.\<close>

theorem confirms_when_acked:
  assumes "stream_reach ext cfg lsn (st, length (emitted_lsns st))"
    and "currentLSN st < last (lsn # map fst (history st)) \<or> replyDue st"
    and "stream_turn ext cfg late cancelled ev st = (r, st')"
  shows "confirmed st' = confirmed st @ [last (lsn # map fst (history st))] \<and>
    currentLSN st' = last (lsn # map fst (history st))"
proof -
  have i: "stream_inv lsn (st, length (emitted_lsns st))" by (rule stream_reach_inv [OF assms(1)])
  then have "ackedLSN st = lastEmittedLSN st" using stream_invD(2,4) by metis
  moreover have "lastEmittedCommitLSN st = last (lsn # map fst (history st))" using i by (simp add: stream_inv_def)
  ultimately have "commitLSN (late \<or> replyDue st) st =
      (True, st\<lparr>currentLSN := last (lsn # map fst (history st)),
        confirmed := confirmed st @ [last (lsn # map fst (history st))]\<rparr>)"
    using assms(2) by (auto simp: commitLSN_def Let_def simp del: last.simps)
  then show ?thesis using stream_turn_confirms [OF assms(3)] by (simp del: last.simps)
qed

theorem confirms_when_acked_witness:
  "\<exists>st st'. stream_reach example_pgext example_config 100 (st, 1) \<and>
     stream_turn example_pgext example_config False False RecvTimeout st = (None, st') \<and>
     confirmed st' = [426] \<and> currentLSN st' = 426"
proof -
  obtain st where r: "stream_reach example_pgext example_config 100 (st, 1)"
    and s: "history st = [(314, True), (426, False)]" "currentLSN st = 100" "confirmed st = []"
    using first_row_acked [of "[300]" 400] by auto
  obtain r' st' where t: "stream_turn example_pgext example_config False False RecvTimeout st = (r', st')" by fastforce
  have "r' = None" using t by (auto simp: stream_turn_def Let_def split: prod.splits)
  moreover have "length (emitted_lsns st) = 1" by (simp add: emitted_lsns_def s)
  ultimately show ?thesis
    using r t confirms_when_acked [of example_pgext example_config 100 st False False RecvTimeout r' st'] s by auto
qed

section \<open>Schemas of changes\<close>

definition cache_coherent :: "pgext \<Rightarrow> stream_state \<Rightarrow> bool" where
  "cache_coherent ext st \<longleftrightarrow>
     (\<forall>rid s. schemaCache st rid = Some s \<longrightarrow>
        (\<exists>rel. st_relations st rid = Some rel \<and> s = relationMessageToSchema ext rel))"

lemma cache_coherent_frame:
  "cache_coherent ext st \<Longrightarrow> schemaCache st' = schemaCache st \<Longrightarrow> st_relations st' = st_relations st \<Longrightarrow>
     cache_coherent ext st'"
  by (simp add: cache_coherent_def)

lemma with_relation_relations:
  "with_relation rels rid f = Ok (rels', m) \<Longrightarrow> rels' = rels \<and> rels rid \<noteq> None"
  by (auto simp: with_relation_def split: option.splits)

lemma toStreamMessage_relations:
  assumes "toStreamMessage ext toast msg rels = Ok (rels', m)"
  shows "rels' = (case msg of RelationMsg r \<Rightarrow> rels(RelationID r \<mapsto> r) | _ \<Rightarrow> rels)"
  using assms by (auto simp: toStreamMessage_def dest!: with_relation_relations split: Message.splits)

lemma attach_schema_coherent:
  assumes "cache_coherent ext st" "attach_schema ext msg m st = (m', st')"
  shows "cache_coherent ext st' \<and> st_relations st' = st_relations st \<and> currentTxnCommitTime st' = currentTxnCommitTime st \<and>
    messages st' = messages st \<and>
    (change_relation msg \<noteq> 0 \<longrightarrow> (\<forall>rel. st_relations st (change_relation msg) = Some rel \<longrightarrow>
       m' = m\<lparr>ColumnSchema := Some (relationMessageToSchema ext rel)\<rparr>))"
  using assms
  by (fastforce simp: attach_schema_def Let_def cache_coherent_def split: option.splits if_splits)

lemma emit_message_coherent:
  assumes "cache_coherent ext st" "emit_message ext cancelled msgLSN msg m st = Ok (res, st')"
  shows "cache_coherent ext st' \<and>
    (change_relation msg \<noteq> 0 \<longrightarrow> (\<forall>rel. st_relations st (change_relation msg) = Some rel \<longrightarrow>
       messages st' = messages st @ [m\<lparr>ColumnSchema := Some (relationMessageToSchema ext rel),
         Msg_CommitTime := currentTxnCommitTime st, Msg_LSN := Some (LSN_String msgLSN)\<rparr>]))"
proof -
  obtain m1 st1 where a: "attach_schema ext msg m st = (m1, st1)" by fastforce
  have st': "st' = st1\<lparr>messages := messages st1 @ [m1\<lparr>Msg_CommitTime := currentTxnCommitTime st1,
      Msg_LSN := Some (LSN_String msgLSN)\<rparr>]\<rparr>"
    using assms(2) a by (simp add: emit_message_def Let_def split: if_splits)
  show ?thesis
    using attach_schema_coherent [OF assms(1) a] by (auto simp: st' cache_coherent_def)
qed

lemma noted_coherent:
  assumes "cache_coherent ext st"
    and "toStreamMessage ext toast msg (st_relations (note_transaction msg st)) = Ok (rels, m)"
  shows "cache_coherent ext ((note_transaction msg st)\<lparr>st_relations := rels\<rparr>)"
  using assms(1) toStreamMessage_relations [OF assms(2)]
  by (cases msg) (auto simp: cache_coherent_def note_transaction_def)

lemma processChange_cases:
  assumes "processChange ext cfg cancelled msgLSN data spare st = Ok (res, st')"
  obtains msg rels m where "Parse data spare = Ok msg"
    and "toStreamMessage ext (unchangedToastValue cfg) msg (st_relations (note_transaction msg st)) = Ok (rels, m)"
    and "res \<noteq> changeResultEmittedMessage \<and> st' = (note_transaction msg st)\<lparr>st_relations := rels\<rparr> \<or>
      (\<exists>m'. m = Some m' \<and>
        emit_message ext cancelled msgLSN msg m' ((note_transaction msg st)\<lparr>st_relations := rels\<rparr>) = Ok (res, st'))"
proof -
  obtain msg where msg: "Parse data spare = Ok msg"
    using assms by (auto simp: processChange_def split: outcome.splits)
  obtain rels m where ts:
    "toStreamMessage ext (unchangedToastValue cfg) msg (st_relations (note_transaction msg st)) = Ok (rels, m)"
    using assms msg by (auto simp: processChange_def Let_def)
  show ?thesis
    using that [OF msg ts] assms msg ts
    by (auto simp: processChange_def Let_def split: option.splits if_splits)
qed

lemma processChange_coherent:
  assumes "cache_coherent ext st" "processChange ext cfg cancelled msgLSN data spare st = Ok (res, st')"
  shows "cache_coherent ext st'"
proof -
  obtain msg rels m where ts:
      "toStreamMessage ext (unchangedToastValue cfg) msg (st_relations (note_transaction msg st)) = Ok (rels, m)"
    and c: "res \<noteq> changeResultEmittedMessage \<and> st' = (note_transaction msg st)\<lparr>st_relations := rels\<rparr> \<or>
      (\<exists>m'. m = Some m' \<and>
        emit_message ext cancelled msgLSN msg m' ((note_transaction msg st)\<lparr>st_relations := rels\<rparr>) = Ok (res, st'))"
    by (rule processChange_cases [OF assms(2)])
  show ?thesis using c emit_message_coherent noted_coherent [OF assms(1) ts] by blast
qed

lemma handle_copy_data_coherent:
  assumes "cache_coherent ext st" "handle_copy_data ext cfg cancelled data spare st = (r, st')"
  shows "cache_coherent ext st'"
proof -
  have reply: "cache_coherent ext (st\<lparr>replyDue := True\<rparr>)" by (rule cache_coherent_frame [OF assms(1)]) simp_all
  have change: "cache_coherent ext (after_change l res st2)"
    if "processChange ext cfg cancelled l d spare st = Ok (res, st2)" for l d res st2
    by (rule cache_coherent_frame [OF processChange_coherent [OF assms(1) that]])
      (cases res; simp add: after_change_def)+
  show ?thesis
    using assms reply change
    by (auto simp: handle_copy_data_def Let_def split: list.splits if_splits outcome.splits)
qed

lemma stream_reach_coherent:
  assumes "stream_reach ext cfg lsn s"
  shows "cache_coherent ext (fst s)"
  using assms
proof (induction rule: stream_reach.induct)
  case reach_start
  then show ?case by (simp add: cache_coherent_def start_state_def)
next
  case (reach_step s s')
  obtain st n st' n' where s: "s = (st, n)" "s' = (st', n')" by (cases s; cases s') blast
  have i: "cache_coherent ext st" using reach_step.IH s by simp
  have commit: "cache_coherent ext (snd (commitLSN force st))" for force
    using i by (auto simp: cache_coherent_def commitLSN_def Let_def)
  from reach_step.hyps(2) have "cache_coherent ext st'"
    unfolding s
  proof (rule stream_step_elim)
    fix late cancelled ev r
    assume turn: "stream_turn ext cfg late cancelled ev st = (r, st')"
    obtain b st1 where c: "commitLSN (late \<or> replyDue st) st = (b, st1)" by fastforce
    then have "cache_coherent ext st1" using commit by (metis snd_conv)
    then have "cache_coherent ext (if b then st1\<lparr>replyDue := False\<rparr> else st1)"
      by (auto elim: cache_coherent_frame)
    then show ?thesis
      using turn c by (cases ev) (auto simp: stream_turn_def Let_def dest: handle_copy_data_coherent split: if_splits)
  next
    assume "AckLSN False (LSN_String (emitted_lsns st ! (n' - Suc 0))) st = Some st'"
    then show ?thesis using i by (auto simp: AckLSN_def cache_coherent_def split: option.splits)
  next
    assume "st' = snd (commitLSN False st)"
    then show ?thesis using commit by simp
  qed
  then show ?case by (simp add: s)
qed

lemma change_relation_known:
  assumes "toStreamMessage ext toast msg rels = Ok (rels', m)" "change_relation msg \<noteq> 0"
  shows "rels' = rels \<and> (\<exists>rel. rels (change_relation msg) = Some rel)"
  using assms
  by (auto simp: toStreamMessage_def change_relation_def dest!: with_relation_relations split: Message.splits)

text \<open>C13. Every insert, update and delete of a table is emitted with the schema of the table's
  latest definition: the cached schemas never go stale, for the definition of a relation
  that has arrived last is the one the attached schema is built from, along with the commit
  time of the transaction and the position of the change.\<close>

theorem schema_cache_coherent:
  assumes "stream_reach ext cfg lsn (st, n)" "Parse data spare = Ok msg" "change_relation msg \<noteq> 0"
    and "processChange ext cfg cancelled msgLSN data spare st = Ok (changeResultEmittedMessage, st')"
  shows "\<exists>rel m. st_relations st (change_relation msg) = Some rel \<and> messages st' = messages st @ [m] \<and>
    ColumnSchema m = Some (relationMessageToSchema ext rel) \<and>
    Msg_CommitTime m = currentTxnCommitTime st \<and> Msg_LSN m = Some (LSN_String msgLSN)"
proof -
  have same: "note_transaction msg st = st"
    using assms(3) by (auto simp: note_transaction_def change_relation_def split: Message.splits)
  obtain rels m where ts: "toStreamMessage ext (unchangedToastValue cfg) msg (st_relations st) = Ok (rels, Some m)"
    and e: "emit_message ext cancelled msgLSN msg m (st\<lparr>st_relations := rels\<rparr>) = Ok (changeResultEmittedMessage, st')"
    by (rule processChange_cases [OF assms(4)]) (use assms(2) same in auto)
  obtain rel where rel: "rels = st_relations st" "st_relations st (change_relation msg) = Some rel"
    using change_relation_known [OF ts assms(3)] by blast
  have "cache_coherent ext st" using stream_reach_coherent [OF assms(1)] by simp
  from emit_message_coherent [OF this, of cancelled msgLSN msg m changeResultEmittedMessage st'] e rel assms(3)
  show ?thesis by simp
qed

theorem schema_cache_coherent_witness:
  "\<exists>st st' m. stream_reach example_pgext example_config 100 (st, 0) \<and>
     processChange example_pgext example_config False 314 insert_bytes [] st = Ok (changeResultEmittedMessage, st') \<and>
     messages st' = messages st @ [m] \<and>
     ColumnSchema m = Some (relationMessageToSchema example_pgext example_relation)"
proof -
  have start: "nothing_to_confirm (start_state 100)" by (simp add: nothing_to_confirm_def start_state_def)
  define st where "st = (start_state 100)\<lparr>st_relations := (st_relations (start_state 100))(1 \<mapsto> example_relation),
      schemaCache := (schemaCache (start_state 100))(1 := None)\<rparr>"
  have r: "stream_reach example_pgext example_config 100 (st, 0)"
    unfolding st_def by (rule reach_turn [OF reach_start relation_turn [OF start]])
  have rel: "st_relations st 1 = Some example_relation" by (simp add: st_def)
  obtain st' where e: "processChange example_pgext example_config False 314 insert_bytes [] st =
      Ok (changeResultEmittedMessage, st')"
    using insert_change [OF rel] by blast
  have i: "change_relation (InsertMsg example_insert) = 1" by (simp add: change_relation_def example_insert_def)
  from schema_cache_coherent [OF r Parse_insert_bytes _ e] show ?thesis using r e rel i by auto
qed

section \<open>Rows\<close>

text \<open>The columns that a tuple gives a value to.\<close>

definition tuple_width :: "TupleData \<Rightarrow> RelationMessage \<Rightarrow> nat" where
  "tuple_width tuple rel = min (length (Tuple_Columns tuple)) (length (Columns rel))"

lemma ex_length_Suc: "(\<exists>xs. length xs = Suc n \<and> P xs) \<longleftrightarrow> (\<exists>x xs. length xs = n \<and> P (x # xs))"
  by (metis length_Cons length_Suc_conv)

lemma tuple_loop_iff:
  "idx \<le> length rcs \<Longrightarrow> tuple_loop ext rcs toast fb idx cols vals = Ok vals' \<longleftrightarrow>
     (\<exists>vs. length vs = min (length cols) (length rcs - idx) \<and>
        (\<forall>i < length vs. tuple_value ext (rcs ! (idx + i)) toast fb (idx + i) (cols ! i) = Ok (vs ! i)) \<and>
        vals' = vals(map Column_Name (take (length vs) (drop idx rcs)) [\<mapsto>] vs))"
proof (induction cols arbitrary: idx vals)
  case Nil
  then show ?case by auto
next
  case (Cons col cols)
  show ?case
  proof (cases "length rcs \<le> idx")
    case True
    then show ?thesis by auto
  next
    case False
    then have d: "drop idx rcs = rcs ! idx # drop (Suc idx) rcs" by (simp add: Cons_nth_drop_Suc)
    have "min (length (col # cols)) (length rcs - idx) = Suc (min (length cols) (length rcs - Suc idx))"
      using False by simp
    then have "(\<exists>vs. length vs = min (length (col # cols)) (length rcs - idx) \<and>
        (\<forall>i < length vs. tuple_value ext (rcs ! (idx + i)) toast fb (idx + i) ((col # cols) ! i) = Ok (vs ! i)) \<and>
        vals' = vals(map Column_Name (take (length vs) (drop idx rcs)) [\<mapsto>] vs)) \<longleftrightarrow>
      (\<exists>v. tuple_value ext (rcs ! idx) toast fb idx col = Ok v \<and>
        (\<exists>vs. length vs = min (length cols) (length rcs - Suc idx) \<and>
          (\<forall>i < length vs. tuple_value ext (rcs ! (Suc idx + i)) toast fb (Suc idx + i) (cols ! i) = Ok (vs ! i)) \<and>
          vals' = (vals(Column_Name (rcs ! idx) \<mapsto> v))(map Column_Name (take (length vs) (drop (Suc idx) rcs)) [\<mapsto>] vs)))"
      by (simp add: ex_length_Suc d All_less_Suc2) blast
    then show ?thesis using Cons.IH [of "Suc idx"] False by (simp add: obind_eq_Ok)
  qed
qed

text \<open>C22. A decoded row has a value for each column that the relation and the tuple both have,
  under the column's name, and no other entry: null for a null, the configured marker for
  an unchanged TOAST value that the old tuple does not supply, the old tuple's value when it
  does, the decoded text otherwise; and decoding succeeds exactly if each of these does.\<close>

theorem decodeTuple_values:
  assumes "distinct (map Column_Name (Columns rel))"
  shows "decodeTuple ext tuple rel toast fallback = Ok vals \<longleftrightarrow>
    dom vals = Column_Name ` set (take (tuple_width tuple rel) (Columns rel)) \<and>
    (\<forall>i < tuple_width tuple rel.
       tuple_value ext (Columns rel ! i) toast fallback i (Tuple_Columns tuple ! i) =
         Ok (the (vals (Column_Name (Columns rel ! i)))))"
    (is "_ \<longleftrightarrow> ?D vals")
proof -
  let ?n = "tuple_width tuple rel"
  let ?names = "map Column_Name (take ?n (Columns rel))"
  let ?V = "\<lambda>i. tuple_value ext (Columns rel ! i) toast fallback i (Tuple_Columns tuple ! i)"
  have d: "distinct ?names" using assms by (metis distinct_take take_map)
  have l: "length ?names = ?n" by (simp add: tuple_width_def)
  have iff: "decodeTuple ext tuple rel toast fallback = Ok vals \<longleftrightarrow>
      (\<exists>vs. length vs = ?n \<and> (\<forall>i < ?n. ?V i = Ok (vs ! i)) \<and> vals = Map.empty(?names [\<mapsto>] vs))"
    by (auto simp: decodeTuple_def tuple_loop_iff tuple_width_def)
  have look: "(Map.empty(?names [\<mapsto>] vs)) (?names ! i) = Some (vs ! i)" if "length vs = ?n" "i < ?n"
    for i and vs :: "pg_any list"
    using that d l by (auto simp: map_upds_def in_set_zip rev_map [symmetric] intro!: map_of_is_SomeI exI [of _ i])
  show ?thesis
  proof
    assume "decodeTuple ext tuple rel toast fallback = Ok vals"
    then obtain vs where vs: "length vs = ?n" "\<forall>i < ?n. ?V i = Ok (vs ! i)" "vals = Map.empty(?names [\<mapsto>] vs)"
      using iff by blast
    then show "?D vals" using look [OF vs(1)] l by auto
  next
    assume D: "?D vals"
    let ?vs = "map (\<lambda>k. the (vals k)) ?names"
    have "vals k = (Map.empty(?names [\<mapsto>] ?vs)) k" for k
    proof (cases "k \<in> set ?names")
      case True
      then obtain i where i: "i < ?n" "k = ?names ! i" using l by (metis in_set_conv_nth)
      have "?vs ! i = the (vals k)" unfolding i(2) by (rule nth_map) (use i l in simp)
      moreover have "vals k \<noteq> None" using True D by auto
      ultimately show ?thesis using look [of ?vs i] l i by (metis length_map option.collapse)
    next
      case False
      moreover have "vals k = None" using False D by (auto simp: domIff)
      ultimately show ?thesis by (simp del: set_map)
    qed
    then have "vals = Map.empty(?names [\<mapsto>] ?vs)" by blast
    moreover have "?vs ! i = the (vals (Column_Name (Columns rel ! i)))" if "i < ?n" for i
      using that l by simp
    ultimately have "length ?vs = ?n \<and> (\<forall>i < ?n. ?V i = Ok (?vs ! i)) \<and> vals = Map.empty(?names [\<mapsto>] ?vs)"
      using D l by (metis length_map)
    then show "decodeTuple ext tuple rel toast fallback = Ok vals" using iff by blast
  qed
qed

theorem decodeTuple_values_witness:
  "distinct (map Column_Name (Columns example_relation)) \<and>
     (\<exists>vals. decodeTuple example_pgext (Insert_Tuple example_insert) example_relation PNil None = Ok vals \<and>
        dom vals = Column_Name ` set (Columns example_relation))"
proof -
  have d: "distinct (map Column_Name (Columns example_relation))" by (simp add: example_relation_def)
  obtain vals where v: "decodeTuple example_pgext (Insert_Tuple example_insert) example_relation PNil None = Ok vals"
    using example_row by blast
  have "tuple_width (Insert_Tuple example_insert) example_relation = length (Columns example_relation)"
    by (simp add: tuple_width_def example_insert_def example_relation_def)
  with decodeTuple_values [OF d, of example_pgext "Insert_Tuple example_insert" PNil None vals] v d
  show ?thesis by auto
qed

section \<open>Messages without content\<close>

text \<open>A truncation, a type and an origin message fall out of the switch with the message
  still empty, so an entry without operation, table and data is sent to the consumer.\<close>

theorem truncate_emits_empty:
  assumes "Parse data spare = Ok msg" "msg \<in> {TruncateMsg t, TypeMsg ty, OriginMsg og}"
  shows "\<exists>st'. processChange ext cfg False msgLSN data spare st = Ok (changeResultEmittedMessage, st') \<and>
    messages st' = messages st @ [empty_message\<lparr>Msg_CommitTime := currentTxnCommitTime st, Msg_LSN := Some (LSN_String msgLSN)\<rparr>]"
  using assms
  by (auto simp: processChange_def note_transaction_def toStreamMessage_def emit_message_def attach_schema_def
      change_relation_def empty_message_def)

end
