(* ===== verification/PG_Snapshot.thy ===== *)
theory PG_Snapshot
  imports PG_Stream "HOL-Library.List_Lexorder"
begin

text \<open>
  The snapshot of a table that precedes streaming: the plan of \<^verbatim>\<open>processSnapshot\<close> and the
  scans of \<^verbatim>\<open>scanTableRange\<close> in
  \<^verbatim>\<open>src/internal/impl/postgresql/pglogicalstream/logical_stream.go\<close>. Primary keys are Go slices,
  so they are addresses into a store: the end of one range and the start of the next are the
  same slice, and a scan advances the start of its range in place, column by column. The
  query against the database is a parameter (\<open>query\<close>), the workers interleave.
\<close>

section \<open>The plan\<close>

type_synonym key_range = "nat option \<times> nat option"

text \<open>A split is named by its index; a range holds the slices of two of them. The loop does not
  end for a chunk size of 0, which is the value \<open>None\<close>.\<close>

partial_function (option) plan_loop ::
  "nat \<Rightarrow> nat \<Rightarrow> nat \<Rightarrow> nat option \<Rightarrow> key_range list \<Rightarrow> key_range list option" where
  "plan_loop chunkSize n i prev ranges =
     (if i < n then plan_loop chunkSize n (i + chunkSize) (Some i) (ranges @ [(prev, Some i)])
      else Some (ranges @ [(prev, None)]))"

definition chunk_size :: "nat \<Rightarrow> nat \<Rightarrow> nat" where
  "chunk_size n maxSnapshotWorkers = max 1 (n div maxSnapshotWorkers)"

text \<open>Go panics on the division by a worker count of 0.\<close>

definition plan_ranges :: "nat \<Rightarrow> nat \<Rightarrow> (unit, key_range list option) outcome" where
  "plan_ranges n maxSnapshotWorkers =
     (if maxSnapshotWorkers = 0 then Panic
      else let chunkSize = chunk_size n maxSnapshotWorkers in
           Ok (plan_loop chunkSize n chunkSize None []))"

section \<open>Scans\<close>

text \<open>
  \<open>pkPosition\<close> gives for each column its place in the primary key. \<open>nil_value\<close> is the Go
  nil in a fresh key.
\<close>

record 'a snapshot_config =
  query :: "'a list option \<Rightarrow> 'a list option \<Rightarrow> nat \<Rightarrow> 'a list list"
  pkPosition :: "nat option list"
  pkCount :: nat
  snapshotBatchSize :: nat
  nil_value :: 'a

definition pk_positions :: "string list \<Rightarrow> string list \<Rightarrow> nat option list" where
  "pk_positions primaryKeyIndex columnNames =
     map (\<lambda>col. let q = QuotePostgresIdentifier col in
            if q \<in> set primaryKeyIndex then Some (length (takeWhile (\<lambda>c. c \<noteq> q) primaryKeyIndex)) else None)
       columnNames"

text \<open>
  A scan queries, then reads the rows of the batch column by column (\<open>Scanning i rows batch\<close>:
  column \<open>i\<close> of the first of \<open>rows\<close> is next), then sends the batch.
\<close>

datatype 'a scan_phase =
    Querying
  | Scanning nat "'a list list" "'a list list"
  | Finished

record 'a scan_worker =
  minExclusive :: "nat option"
  maxInclusive :: "nat option"
  phase :: "'a scan_phase"

record 'a snapshot_state =
  keys_at :: "nat \<Rightarrow> 'a list"
  next_key :: nat
  scan_workers :: "'a scan_worker list"
  sent :: "'a list list"

definition write_column :: "'a snapshot_config \<Rightarrow> nat \<Rightarrow> 'a list \<Rightarrow> 'a list \<Rightarrow> 'a list" where
  "write_column cfg i row pk =
     (case pkPosition cfg ! i of Some j \<Rightarrow> pk[j := row ! i] | None \<Rightarrow> pk)"

definition scan_query :: "'a snapshot_config \<Rightarrow> nat \<Rightarrow> 'a snapshot_state \<Rightarrow> 'a snapshot_state" where
  "scan_query cfg k s =
     (let w = scan_workers s ! k;
          rows = query cfg (map_option (keys_at s) (minExclusive w)) (map_option (keys_at s) (maxInclusive w))
            (snapshotBatchSize cfg) in
      case minExclusive w of
        Some a \<Rightarrow> s\<lparr>scan_workers := (scan_workers s)[k := w\<lparr>phase := Scanning 0 rows []\<rparr>]\<rparr>
      | None \<Rightarrow>
          s\<lparr>keys_at := (keys_at s)(next_key s := replicate (pkCount cfg) (nil_value cfg)),
            next_key := Suc (next_key s),
            scan_workers := (scan_workers s)[k := w\<lparr>minExclusive := Some (next_key s), phase := Scanning 0 rows []\<rparr>]\<rparr>)"

definition scan_worker_step :: "'a snapshot_config \<Rightarrow> nat \<Rightarrow> 'a snapshot_state \<Rightarrow> 'a snapshot_state" where
  "scan_worker_step cfg k s =
     (let w = scan_workers s ! k in
      case phase w of
        Querying \<Rightarrow> scan_query cfg k s
      | Scanning i (row # rows) batch \<Rightarrow>
          if i < length row then
            s\<lparr>keys_at := (keys_at s)(the (minExclusive w) := write_column cfg i row (keys_at s (the (minExclusive w)))),
              scan_workers := (scan_workers s)[k := w\<lparr>phase := Scanning (Suc i) (row # rows) batch\<rparr>]\<rparr>
          else s\<lparr>scan_workers := (scan_workers s)[k := w\<lparr>phase := Scanning 0 rows (batch @ [row])\<rparr>]\<rparr>
      | Scanning i [] batch \<Rightarrow>
          s\<lparr>sent := sent s @ batch,
            scan_workers := (scan_workers s)[k := w\<lparr>phase := if length batch < snapshotBatchSize cfg then Finished else Querying\<rparr>]\<rparr>
      | Finished \<Rightarrow> s)"

definition snapshot_start :: "'a list list \<Rightarrow> key_range list \<Rightarrow> 'a snapshot_state" where
  "snapshot_start splits ranges =
     \<lparr>keys_at = (\<lambda>a. splits ! a), next_key = length splits,
      scan_workers = map (\<lambda>(a, b). \<lparr>minExclusive = a, maxInclusive = b, phase = Querying\<rparr>) ranges, sent = []\<rparr>"

inductive snapshot_step :: "'a snapshot_config \<Rightarrow> 'a snapshot_state \<Rightarrow> 'a snapshot_state \<Rightarrow> bool" for cfg where
  worker_moves: "k < length (scan_workers s) \<Longrightarrow> phase (scan_workers s ! k) \<noteq> Finished \<Longrightarrow>
    snapshot_step cfg s (scan_worker_step cfg k s)"

definition snapshot_done :: "'a snapshot_state \<Rightarrow> bool" where
  "snapshot_done s \<longleftrightarrow> list_all (\<lambda>w. phase w = Finished) (scan_workers s)"

section \<open>The plan ends and tiles the key space\<close>

lemma plan_loop_Some:
  assumes "0 < c"
  shows "plan_loop c n i prev ranges =
    Some (ranges @ zip (prev # map Some (filter (\<lambda>j. c dvd j - i) [i..<n])) (map Some (filter (\<lambda>j. c dvd j - i) [i..<n]) @ [None]))"
proof (induction "n - i" arbitrary: i prev ranges rule: less_induct)
  case less
  show ?case
  proof (cases "i < n")
    case True
    have f: "filter (\<lambda>j. c dvd j - i) [i..<n] = i # filter (\<lambda>j. c dvd j - (i + c)) [i + c..<n]"
    proof -
      have "filter (\<lambda>j. c dvd j - i) [i..<n] = i # filter (\<lambda>j. c dvd j - i) [Suc i..<n]"
        using True by (simp add: upt_conv_Cons)
      also have "filter (\<lambda>j. c dvd j - i) [Suc i..<n] = filter (\<lambda>j. c dvd j - (i + c)) [i + c..<n]"
      proof (rule sorted_distinct_set_unique)
        show "set (filter (\<lambda>j. c dvd j - i) [Suc i..<n]) = set (filter (\<lambda>j. c dvd j - (i + c)) [i + c..<n])"
        proof -
          have "c dvd j - i \<longleftrightarrow> c dvd j - (i + c)" if "i + c \<le> j" for j
            using that by (metis diff_diff_left dvd_minus_self add_le_imp_le_diff add.commute leD)
          moreover have "i + c \<le> j" if "c dvd j - i" "i < j" for j
            using dvd_imp_le [OF that(1)] that(2) by simp
          ultimately show ?thesis using assms by (auto simp: Suc_le_eq)
        qed
      qed (simp_all add: sorted_wrt_filter)
      finally show ?thesis .
    qed
    show ?thesis
      using less [of "i + c" "Some i" "ranges @ [(prev, Some i)]"] True assms
      by (subst plan_loop.simps) (simp add: f)
  next
    case False
    then show ?thesis by (subst plan_loop.simps) simp
  qed
qed

text \<open>The ranges between the splits \<open>cuts\<close>, open at both ends of the key space.\<close>

definition tiling :: "nat list \<Rightarrow> key_range list" where
  "tiling cuts = zip (None # map Some cuts) (map Some cuts @ [None])"

lemma plan_ranges_tiling:
  assumes "0 < workers"
  obtains cuts where "plan_ranges n workers = Ok (Some (tiling cuts))" "distinct cuts" "set cuts \<subseteq> {1..<n}" "sorted cuts"
proof -
  let ?c = "chunk_size n workers"
  let ?cuts = "filter (\<lambda>j. ?c dvd j - ?c) [?c..<n]"
  have "0 < ?c" by (simp add: chunk_size_def)
  then have "plan_ranges n workers = Ok (Some (tiling ?cuts))"
    using assms plan_loop_Some [of ?c n ?c None "[]"] by (simp add: plan_ranges_def tiling_def Let_def)
  moreover have "set ?cuts \<subseteq> {1..<n}" using \<open>0 < ?c\<close> by auto
  ultimately show ?thesis using that [of ?cuts] by (simp add: sorted_wrt_filter)
qed

lemma plan_loop_zero: "plan_loop c n i prev ranges = Some r \<Longrightarrow> c = 0 \<longrightarrow> n \<le> i"
  by (erule plan_loop.raw_induct [rotated, where P = "\<lambda>c n i prev ranges r. c = 0 \<longrightarrow> n \<le> i"])
    (fastforce split: if_splits)

lemma first_index: "q \<in> set xs \<Longrightarrow> length (takeWhile (\<lambda>c. c \<noteq> q) xs) < length xs \<and> xs ! length (takeWhile (\<lambda>c. c \<noteq> q) xs) = q"
  by (induction xs) auto

lemma pk_positions_correct:
  assumes "i < length columnNames" "pk_positions primaryKeyIndex columnNames ! i = Some j"
  shows "j < length primaryKeyIndex \<and> primaryKeyIndex ! j = QuotePostgresIdentifier (columnNames ! i)"
  using assms first_index by (fastforce simp: pk_positions_def Let_def split: if_splits)

section \<open>Keys that are written column by column\<close>

definition written :: "'a snapshot_config \<Rightarrow> 'a list \<Rightarrow> nat \<Rightarrow> 'a list \<Rightarrow> 'a list" where
  "written cfg row i pk = fold (\<lambda>i pk. write_column cfg i row pk) [0..<i] pk"

definition row_key :: "'a snapshot_config \<Rightarrow> 'a list \<Rightarrow> 'a list" where
  "row_key cfg row = written cfg row (length row) (replicate (pkCount cfg) (nil_value cfg))"

definition above_key :: "'a :: linorder list option \<Rightarrow> 'a list \<Rightarrow> bool" where
  "above_key mn key = (case mn of None \<Rightarrow> True | Some m \<Rightarrow> m < key)"

definition upto_key :: "'a :: linorder list option \<Rightarrow> 'a list \<Rightarrow> bool" where
  "upto_key mx key = (case mx of None \<Rightarrow> True | Some m \<Rightarrow> key \<le> m)"

text \<open>
  The table: rows with all columns, in the order of their different primary keys. The query
  returns the first rows of a range.
\<close>

definition snapshot_table :: "'a :: linorder snapshot_config \<Rightarrow> 'a list list \<Rightarrow> bool" where
  "snapshot_table cfg table \<longleftrightarrow>
     list_all (\<lambda>row. length row = length (pkPosition cfg)) table \<and>
     sorted_wrt (\<lambda>r r'. row_key cfg r < row_key cfg r') table \<and>
     (\<forall>mn mx limit. query cfg mn mx limit =
        take limit (filter (\<lambda>r. above_key mn (row_key cfg r) \<and> upto_key mx (row_key cfg r)) table))"

text \<open>The columns of the primary key stand in the table in the order of the key.\<close>

definition key_columns_in_order :: "'a snapshot_config \<Rightarrow> bool" where
  "key_columns_in_order cfg \<longleftrightarrow> List.map_filter id (pkPosition cfg) = [0..<pkCount cfg]"

definition key_prefix :: "'a snapshot_config \<Rightarrow> 'a list \<Rightarrow> nat \<Rightarrow> 'a list" where
  "key_prefix cfg row i = map ((!) row) (filter (\<lambda>i. pkPosition cfg ! i \<noteq> None) [0..<i])"

lemma map_filter_app: "List.map_filter f (xs @ ys) = List.map_filter f xs @ List.map_filter f ys"
  by (simp add: List.map_filter_def)

lemma length_key_prefix:
  "i \<le> length (pkPosition cfg) \<Longrightarrow> length (key_prefix cfg row i) = length (List.map_filter id (take i (pkPosition cfg)))"
proof (induction i)
  case (Suc i)
  then show ?case
    by (cases "pkPosition cfg ! i") (simp_all add: key_prefix_def take_Suc_conv_app_nth map_filter_app map_filter_simps)
qed (simp add: key_prefix_def map_filter_simps)

lemma key_position:
  assumes "key_columns_in_order cfg" "i < length (pkPosition cfg)" "pkPosition cfg ! i = Some j"
  shows "j = length (key_prefix cfg row i) \<and> j < pkCount cfg"
proof -
  have "[0..<pkCount cfg] = List.map_filter id (take i (pkPosition cfg) @ Some j # drop (Suc i) (pkPosition cfg))"
    using assms by (simp add: key_columns_in_order_def id_take_nth_drop [symmetric] flip: assms(3))
  then have e: "[0..<pkCount cfg] = List.map_filter id (take i (pkPosition cfg)) @ j #
      List.map_filter id (drop (Suc i) (pkPosition cfg))"
    by (simp add: map_filter_app map_filter_simps)
  let ?m = "length (List.map_filter id (take i (pkPosition cfg)))"
  have "?m < pkCount cfg" using arg_cong [OF e, of length] by simp
  moreover have "[0..<pkCount cfg] ! ?m = j" using e by (metis nth_append_length)
  ultimately show ?thesis using assms(2) by (simp add: length_key_prefix)
qed

lemma written_prefix:
  assumes "key_columns_in_order cfg" "i \<le> length (pkPosition cfg)" "length pk = pkCount cfg"
  shows "written cfg row i pk = key_prefix cfg row i @ drop (length (key_prefix cfg row i)) pk"
  using assms(2)
proof (induction i)
  case (Suc i)
  then have IH: "written cfg row i pk = key_prefix cfg row i @ drop (length (key_prefix cfg row i)) pk" by simp
  have s: "written cfg row (Suc i) pk = write_column cfg i row (written cfg row i pk)" by (simp add: written_def)
  show ?case
  proof (cases "pkPosition cfg ! i")
    case None
    then show ?thesis using IH s by (simp add: write_column_def key_prefix_def)
  next
    case (Some j)
    then have j: "j = length (key_prefix cfg row i)" "j < pkCount cfg"
      using key_position [OF assms(1), of i j row] Suc.prems by auto
    have "key_prefix cfg row (Suc i) = key_prefix cfg row i @ [row ! i]" using Some by (simp add: key_prefix_def)
    moreover have "drop j pk = pk ! j # drop (Suc j) pk" using j(2) assms(3) by (simp add: Cons_nth_drop_Suc)
    ultimately show ?thesis using IH s Some j(1) by (simp add: write_column_def)
  qed
qed (simp add: written_def key_prefix_def)

lemma written_full:
  assumes "key_columns_in_order cfg" "length row = length (pkPosition cfg)" "length pk = pkCount cfg"
  shows "written cfg row (length row) pk = row_key cfg row" and "length (row_key cfg row) = pkCount cfg"
proof -
  have "length (key_prefix cfg row (length row)) = pkCount cfg"
    using assms(1,2) by (simp add: length_key_prefix key_columns_in_order_def)
  then show "written cfg row (length row) pk = row_key cfg row" "length (row_key cfg row) = pkCount cfg"
    using assms by (simp_all add: row_key_def written_prefix)
qed

lemma less_mixed_prefix:
  "length p = length k \<Longrightarrow> p < k \<Longrightarrow> p \<le> take m k @ drop m (p :: 'a :: linorder list)"
proof (induction p k arbitrary: m rule: list_induct2)
  case (Cons x xs y ys)
  then show ?case by (cases m) auto
qed simp

lemma written_ge:
  assumes "key_columns_in_order cfg" "length row = length (pkPosition cfg)" "length pk = pkCount cfg"
    "i \<le> length row" "pk < row_key cfg (row :: 'a :: linorder list)"
  shows "pk \<le> written cfg row i pk" and "length (written cfg row i pk) = pkCount cfg"
proof -
  let ?m = "length (key_prefix cfg row i)"
  have "[0..<length row] = [0..<i] @ [i..<length row]" using assms(4) upt_add_eq_append [of 0 i "length row - i"] by simp
  then have k: "key_prefix cfg row (length row) = key_prefix cfg row i @
      map ((!) row) (filter (\<lambda>i. pkPosition cfg ! i \<noteq> None) [i..<length row])"
    by (simp add: key_prefix_def)
  have full: "row_key cfg row = key_prefix cfg row (length row)"
    using written_prefix [OF assms(1) _ assms(3), of "length row" row] written_full [OF assms(1-3)] assms(2,3)
    by (simp add: length_key_prefix) (metis append.right_neutral assms(1) drop_all key_columns_in_order_def length_upt diff_zero order_refl)
  have "written cfg row i pk = take ?m (row_key cfg row) @ drop ?m pk"
    using written_prefix [OF assms(1) _ assms(3), of i row] assms(2,4) full k by simp
  moreover have l: "length pk = length (row_key cfg row)" using written_full(2) [OF assms(1-3)] assms(3) by simp
  ultimately show "pk \<le> written cfg row i pk" using less_mixed_prefix [OF l assms(5), of ?m] by simp
  have "?m \<le> pkCount cfg" using l assms(3) full k by simp
  then show "length (written cfg row i pk) = pkCount cfg"
    using written_prefix [OF assms(1) _ assms(3), of i row] assms(2-4) by simp
qed

section \<open>No row is skipped\<close>

text \<open>
  What holds of a worker whose range was \<open>(lo, hi]\<close> when the scan began: \<open>S\<close> are the rows
  sent so far, \<open>c\<close> is the key in its \<open>minExclusive\<close>.
\<close>

definition covered ::
  "'a :: linorder snapshot_config \<Rightarrow> 'a list list \<Rightarrow> 'a list option \<Rightarrow> 'a list option \<Rightarrow> ('a list \<Rightarrow> bool) \<Rightarrow> bool" where
  "covered cfg table lo hi P \<longleftrightarrow>
     (\<forall>r \<in> set table. above_key lo (row_key cfg r) \<and> upto_key hi (row_key cfg r) \<longrightarrow> P r)"

definition scanning_inv ::
  "'a :: linorder snapshot_config \<Rightarrow> 'a list list \<Rightarrow> 'a list option \<Rightarrow> 'a list \<Rightarrow> nat \<Rightarrow> 'a list list \<Rightarrow> 'a list list \<Rightarrow> bool" where
  "scanning_inv cfg table lo c i rows batch \<longleftrightarrow>
     sorted_wrt (\<lambda>r r'. row_key cfg r < row_key cfg r') (batch @ rows) \<and> set rows \<subseteq> set table \<and>
     (rows = [] \<longrightarrow> i = 0) \<and> (rows \<noteq> [] \<longrightarrow> i \<le> length (hd rows)) \<and>
     (\<exists>p. length p = pkCount cfg \<and> c = (if rows = [] then p else written cfg (hd rows) i p) \<and>
        (batch \<noteq> [] \<longrightarrow> p = row_key cfg (last batch)) \<and>
        (\<forall>k. lo = Some k \<longrightarrow> k \<le> p \<and> (\<forall>r\<in>set rows. p < row_key cfg r)))"

definition scan_inv ::
  "'a :: linorder snapshot_config \<Rightarrow> 'a list list \<Rightarrow> 'a list option \<Rightarrow> 'a list option \<Rightarrow> 'a list set \<Rightarrow> 'a list
     \<Rightarrow> 'a scan_worker \<Rightarrow> bool" where
  "scan_inv cfg table lo hi S c w \<longleftrightarrow>
     (minExclusive w = None \<longrightarrow> lo = None \<and> phase w = Querying) \<and>
     (minExclusive w \<noteq> None \<longrightarrow> length c = pkCount cfg \<and> (\<forall>k. lo = Some k \<longrightarrow> k \<le> c)) \<and>
     (case phase w of
        Querying \<Rightarrow> minExclusive w \<noteq> None \<longrightarrow> covered cfg table lo hi (\<lambda>r. r \<in> S \<or> c < row_key cfg r)
      | Scanning i rows batch \<Rightarrow> scanning_inv cfg table lo c i rows batch \<and>
          covered cfg table lo hi (\<lambda>r. r \<in> S \<or> r \<in> set (batch @ rows) \<or>
            length (batch @ rows) = snapshotBatchSize cfg \<and> row_key cfg (last (batch @ rows)) < row_key cfg r)
      | Finished \<Rightarrow> covered cfg table lo hi (\<lambda>r. r \<in> S))"

lemma covered_mono:
  "covered cfg table lo hi P \<Longrightarrow> (\<And>r. r \<in> set table \<Longrightarrow> P r \<Longrightarrow> Q r) \<Longrightarrow> covered cfg table lo hi Q"
  by (auto simp: covered_def)

lemma scan_inv_mono: "scan_inv cfg table lo hi S c w \<Longrightarrow> S \<subseteq> S' \<Longrightarrow> scan_inv cfg table lo hi S' c w"
  unfolding scan_inv_def
  by (cases "phase w") (auto elim!: covered_mono)

lemma sorted_first_rows:
  assumes "sorted_wrt R xs" "r \<in> set xs" "r \<notin> set (take n xs)" "0 < n"
  shows "length (take n xs) = n \<and> R (last (take n xs)) r"
proof -
  have r: "r \<in> set (drop n xs)" using assms(2,3) by (metis append_take_drop_id Un_iff set_append)
  then have n: "n < length xs" by (metis drop_all empty_iff empty_set not_le)
  then have "take n xs \<noteq> []" using assms(4) by auto
  moreover have "sorted_wrt R (take n xs @ drop n xs)" using assms(1) by simp
  ultimately have "R (last (take n xs)) r" using r unfolding sorted_wrt_append by auto
  then show ?thesis using n by simp
qed

text \<open>The three moves of a worker.\<close>

lemma query_inv:
  assumes t: "snapshot_table cfg table" "0 < snapshotBatchSize cfg"
    and inv: "scan_inv cfg table lo hi S c w" "phase w = Querying"
    and mn: "mn = (if minExclusive w = None then None else Some c)"
    and mx: "\<And>key. upto_key hi key \<Longrightarrow> upto_key mx key"
    and c': "minExclusive w = None \<and> c' = replicate (pkCount cfg) (nil_value cfg) \<or> minExclusive w \<noteq> None \<and> c' = c"
    and w': "minExclusive w' \<noteq> None" "phase w' = Scanning 0 (query cfg mn mx (snapshotBatchSize cfg)) []"
  shows "scan_inv cfg table lo hi S c' w'"
proof -
  let ?F = "filter (\<lambda>r. above_key mn (row_key cfg r) \<and> upto_key mx (row_key cfg r)) table"
  let ?q = "take (snapshotBatchSize cfg) ?F"
  have q: "query cfg mn mx (snapshotBatchSize cfg) = ?q" using t(1) by (simp add: snapshot_table_def)
  have sF: "sorted_wrt (\<lambda>r r'. row_key cfg r < row_key cfg r') ?F"
    using t(1) by (simp add: snapshot_table_def sorted_wrt_filter)
  have sub: "set ?q \<subseteq> set ?F" by (rule set_take_subset)
  have "covered cfg table lo hi (\<lambda>r. r \<in> S \<or> r \<in> set ?F)"
    using inv mn mx by (auto simp: covered_def scan_inv_def above_key_def)
  then have cov: "covered cfg table lo hi (\<lambda>r. r \<in> S \<or> r \<in> set ?q \<or>
      length ?q = snapshotBatchSize cfg \<and> row_key cfg (last ?q) < row_key cfg r)"
    by (rule covered_mono) (use sorted_first_rows [OF sF _ _ t(2)] in blast)
  have lo: "\<forall>k. lo = Some k \<longrightarrow> k \<le> c' \<and> (\<forall>r\<in>set ?q. c' < row_key cfg r)" and len: "length c' = pkCount cfg"
    using inv mn c' sub by (auto simp: scan_inv_def above_key_def)
  have "scanning_inv cfg table lo c' 0 ?q []"
    unfolding scanning_inv_def
    using sorted_wrt_take [OF sF] sub lo len by (auto simp: written_def intro!: exI [of _ c'])
  with cov lo len show ?thesis using w' unfolding scan_inv_def q by simp
qed

lemma column_inv:
  assumes cols: "key_columns_in_order cfg" "snapshot_table cfg table"
    and inv: "scan_inv cfg table lo hi S c w" "phase w = Scanning i (row # rows) batch" "i < length row"
    and w': "minExclusive w' = minExclusive w" "phase w' = Scanning (Suc i) (row # rows) batch"
  shows "scan_inv cfg table lo hi S (write_column cfg i row c) w'"
proof -
  have s: "scanning_inv cfg table lo c i (row # rows) batch" using inv by (simp add: scan_inv_def)
  then obtain p where p: "length p = pkCount cfg" "c = written cfg row i p"
    "batch \<noteq> [] \<longrightarrow> p = row_key cfg (last batch)"
    "\<forall>k. lo = Some k \<longrightarrow> k \<le> p \<and> (\<forall>r\<in>set (row # rows). p < row_key cfg r)"
    by (auto simp: scanning_inv_def)
  have l: "length row = length (pkPosition cfg)"
    using s cols(2) by (auto simp: scanning_inv_def snapshot_table_def list_all_iff)
  have w: "write_column cfg i row c = written cfg row (Suc i) p" using p(2) by (simp add: written_def)
  have "scanning_inv cfg table lo (write_column cfg i row c) (Suc i) (row # rows) batch"
    unfolding scanning_inv_def
  proof (intro conjI exI)
    show "\<forall>k. lo = Some k \<longrightarrow> k \<le> p \<and> (\<forall>r\<in>set (row # rows). p < row_key cfg r)" by (rule p(4))
  qed (use s inv(3) p w in \<open>auto simp: scanning_inv_def\<close>)
  moreover have "length (write_column cfg i row c) = pkCount cfg"
    using p(1,2) inv by (auto simp: write_column_def scan_inv_def split: option.splits)
  moreover have "k \<le> write_column cfg i row c" if "lo = Some k" for k
    using written_ge(1) [OF cols(1) l p(1), of "Suc i"] inv(3) p(4) that w by fastforce
  ultimately show ?thesis using inv w' by (auto simp: scan_inv_def)
qed

lemma row_inv:
  assumes cols: "key_columns_in_order cfg" "snapshot_table cfg table"
    and inv: "scan_inv cfg table lo hi S c w" "phase w = Scanning i (row # rows) batch" "\<not> i < length row"
    and w': "minExclusive w' = minExclusive w" "phase w' = Scanning 0 rows (batch @ [row])"
  shows "scan_inv cfg table lo hi S c w'"
proof -
  have s: "scanning_inv cfg table lo c i (row # rows) batch" using inv by (simp add: scan_inv_def)
  then obtain p where p: "length p = pkCount cfg" "c = written cfg row i p"
    by (auto simp: scanning_inv_def)
  have l: "length row = length (pkPosition cfg)" "i = length row"
    using s cols(2) inv(3) by (auto simp: scanning_inv_def snapshot_table_def list_all_iff)
  have c: "c = row_key cfg row" using written_full(1) [OF cols(1) l(1) p(1)] p(2) l(2) by simp
  have "scanning_inv cfg table lo c 0 rows (batch @ [row])"
    using s c inv written_full(2) [OF cols(1) l(1) p(1)]
    by (auto simp: scanning_inv_def scan_inv_def written_def sorted_wrt_append)
  then show ?thesis using inv w' by (auto simp: scan_inv_def elim!: covered_mono)
qed

lemma batch_inv:
  assumes lim: "0 < snapshotBatchSize cfg"
    and inv: "scan_inv cfg table lo hi S c w" "phase w = Scanning i [] batch"
    and w': "minExclusive w' = minExclusive w"
      "phase w' = (if length batch < snapshotBatchSize cfg then Finished else Querying)"
  shows "scan_inv cfg table lo hi (S \<union> set batch) c w'"
proof -
  have s: "scanning_inv cfg table lo c i [] batch" and
    cov: "covered cfg table lo hi (\<lambda>r. r \<in> S \<or> r \<in> set batch \<or>
      length batch = snapshotBatchSize cfg \<and> row_key cfg (last batch) < row_key cfg r)"
    using inv by (simp_all add: scan_inv_def)
  have c: "batch \<noteq> [] \<Longrightarrow> c = row_key cfg (last batch)" using s by (auto simp: scanning_inv_def)
  have "covered cfg table lo hi (\<lambda>r. r \<in> S \<union> set batch)" if "length batch < snapshotBatchSize cfg"
    using cov that by (auto elim: covered_mono)
  moreover have "covered cfg table lo hi (\<lambda>r. r \<in> S \<union> set batch \<or> c < row_key cfg r)"
    if "\<not> length batch < snapshotBatchSize cfg"
  proof -
    have "batch \<noteq> []" using that lim by auto
    then show ?thesis using cov c by (auto elim: covered_mono)
  qed
  ultimately show ?thesis using inv w' by (auto simp: scan_inv_def)
qed

text \<open>
  The moves of one worker as a relation: its key and record before and after and the rows it
  sends, for a worker whose slice is \<open>own\<close> and whose range ends at \<open>mx\<close>.
\<close>

inductive worker_move ::
  "'a snapshot_config \<Rightarrow> nat \<Rightarrow> 'a list option \<Rightarrow> 'a list \<Rightarrow> 'a scan_worker \<Rightarrow> 'a list \<Rightarrow> 'a scan_worker \<Rightarrow> 'a list list \<Rightarrow> bool"
  for cfg own mx where
  first_query: "minExclusive w = None \<Longrightarrow> phase w = Querying \<Longrightarrow>
    worker_move cfg own mx c w (replicate (pkCount cfg) (nil_value cfg))
      (w\<lparr>minExclusive := Some own, phase := Scanning 0 (query cfg None mx (snapshotBatchSize cfg)) []\<rparr>) []"
| next_query: "minExclusive w = Some own \<Longrightarrow> phase w = Querying \<Longrightarrow>
    worker_move cfg own mx c w c (w\<lparr>phase := Scanning 0 (query cfg (Some c) mx (snapshotBatchSize cfg)) []\<rparr>) []"
| next_column: "minExclusive w = Some own \<Longrightarrow> phase w = Scanning i (row # rows) batch \<Longrightarrow> i < length row \<Longrightarrow>
    worker_move cfg own mx c w (write_column cfg i row c) (w\<lparr>phase := Scanning (Suc i) (row # rows) batch\<rparr>) []"
| next_row: "minExclusive w = Some own \<Longrightarrow> phase w = Scanning i (row # rows) batch \<Longrightarrow> \<not> i < length row \<Longrightarrow>
    worker_move cfg own mx c w c (w\<lparr>phase := Scanning 0 rows (batch @ [row])\<rparr>) []"
| send_batch: "minExclusive w = Some own \<Longrightarrow> phase w = Scanning i [] batch \<Longrightarrow>
    worker_move cfg own mx c w c
      (w\<lparr>phase := if length batch < snapshotBatchSize cfg then Finished else Querying\<rparr>) batch"

lemma scan_worker_step_move:
  assumes "w = scan_workers s ! k" "phase w \<noteq> Finished"
    and "minExclusive w = Some own \<or> minExclusive w = None \<and> phase w = Querying \<and> own = next_key s"
  shows "\<exists>c' w' b. worker_move cfg own (map_option (keys_at s) (maxInclusive w)) (keys_at s own) w c' w' b \<and>
    scan_worker_step cfg k s =
      s\<lparr>keys_at := (keys_at s)(own := c'), next_key := (if minExclusive w = None then Suc (next_key s) else next_key s),
        scan_workers := (scan_workers s)[k := w'], sent := sent s @ b\<rparr>"
proof (cases "phase w")
  case Querying
  then show ?thesis
    using assms by (cases "minExclusive w")
      (fastforce simp: scan_worker_step_def scan_query_def Let_def intro: first_query next_query)+
next
  case (Scanning i rows batch)
  then have own: "minExclusive w = Some own" using assms(3) by auto
  show ?thesis
    using assms own Scanning next_column [OF own, of i] next_row [OF own, of i] send_batch [OF own, of i]
    by (cases rows) (fastforce simp: scan_worker_step_def Let_def)+
next
  case Finished
  then show ?thesis using assms by simp
qed

lemma worker_move_inv:
  assumes cfg: "key_columns_in_order cfg" "snapshot_table cfg table" "0 < snapshotBatchSize cfg"
    and inv: "scan_inv cfg table lo hi S c w"
    and mx: "\<And>key. upto_key hi key \<Longrightarrow> upto_key mx key"
    and move: "worker_move cfg own mx c w c' w' b"
  shows "scan_inv cfg table lo hi (S \<union> set b) c' w'"
  using move
proof cases
  case first_query
  then show ?thesis using query_inv [OF cfg(2,3) inv, where mn = None and mx = mx and w' = w'] mx by simp
next
  case next_query
  then show ?thesis using query_inv [OF cfg(2,3) inv, where mn = "Some c" and mx = mx and w' = w'] mx by simp
next
  case next_column
  then show ?thesis using column_inv [OF cfg(1,2) inv] by simp
next
  case next_row
  then show ?thesis using row_inv [OF cfg(1,2) inv] by simp
next
  case (send_batch i)
  then show ?thesis using batch_inv [OF cfg(3) inv] by simp
qed

lemma worker_move_rows:
  assumes "snapshot_table cfg table" "worker_move cfg own mx c w c' w' b"
    and "case phase w of Scanning i rows batch \<Rightarrow> set rows \<subseteq> set table \<and> set batch \<subseteq> set table | _ \<Rightarrow> True"
  shows "case phase w' of Scanning i rows batch \<Rightarrow> set rows \<subseteq> set table \<and> set batch \<subseteq> set table | _ \<Rightarrow> True"
    and "set b \<subseteq> set table" and "minExclusive w' = Some own" and "maxInclusive w' = maxInclusive w"
proof -
  have "set (query cfg mn mx l) \<subseteq> set table" for mn l
    using assms(1) by (auto simp: snapshot_table_def dest: in_set_takeD)
  with assms(2,3) show "case phase w' of Scanning i rows batch \<Rightarrow> set rows \<subseteq> set table \<and> set batch \<subseteq> set table | _ \<Rightarrow> True"
    "set b \<subseteq> set table" "minExclusive w' = Some own" "maxInclusive w' = maxInclusive w"
    by (auto elim!: worker_move.cases)
qed

text \<open>
  The whole snapshot. The slice of worker \<open>k\<close> is the end of the range before it; the first
  worker makes one of its own.
\<close>

definition own_key :: "nat list \<Rightarrow> nat \<Rightarrow> nat \<Rightarrow> nat" where
  "own_key cuts n k = (if k = 0 then n else cuts ! (k - 1))"

definition lower_key :: "'a list list \<Rightarrow> nat list \<Rightarrow> nat \<Rightarrow> 'a list option" where
  "lower_key splits cuts k = (if k = 0 then None else Some (splits ! (cuts ! (k - 1))))"

definition upper_key :: "'a list list \<Rightarrow> nat list \<Rightarrow> nat \<Rightarrow> 'a list option" where
  "upper_key splits cuts k = (if k < length cuts then Some (splits ! (cuts ! k)) else None)"

definition snapshot_inv ::
  "'a :: linorder snapshot_config \<Rightarrow> 'a list list \<Rightarrow> 'a list list \<Rightarrow> nat list \<Rightarrow> 'a snapshot_state \<Rightarrow> bool" where
  "snapshot_inv cfg table splits cuts s \<longleftrightarrow>
     length (scan_workers s) = Suc (length cuts) \<and> set (sent s) \<subseteq> set table \<and>
     (\<forall>k \<le> length cuts. let w = scan_workers s ! k in
        maxInclusive w = (if k < length cuts then Some (cuts ! k) else None) \<and>
        (minExclusive w = Some (own_key cuts (length splits) k) \<or>
           k = 0 \<and> minExclusive w = None \<and> next_key s = length splits) \<and>
        (case phase w of Scanning i rows batch \<Rightarrow> set rows \<subseteq> set table \<and> set batch \<subseteq> set table | _ \<Rightarrow> True) \<and>
        scan_inv cfg table (lower_key splits cuts k) (upper_key splits cuts k) (set (sent s))
          (keys_at s (own_key cuts (length splits) k)) w)"

lemma own_key_inj:
  assumes "distinct cuts" "set cuts \<subseteq> {1..<n}" "j \<le> length cuts" "k \<le> length cuts" "own_key cuts n j = own_key cuts n k"
  shows "j = k"
proof -
  have ne: "cuts ! (i - 1) \<noteq> n" if "i \<le> length cuts" "i \<noteq> 0" for i
    using assms(2) nth_mem [of "i - 1" cuts] that by fastforce
  have eq: "cuts ! (j - 1) = cuts ! (k - 1) \<longleftrightarrow> j - 1 = k - 1" if "j \<noteq> 0" "k \<noteq> 0"
    using nth_eq_iff_index_eq [OF assms(1), of "j - 1" "k - 1"] assms(3,4) that by simp
  show ?thesis
    using ne [OF assms(3)] ne [OF assms(4)] eq assms(5) by (cases "j = 0"; cases "k = 0") (auto simp: own_key_def)
qed

lemma snapshot_invD:
  assumes "snapshot_inv cfg table splits cuts s" "k \<le> length cuts"
  shows "maxInclusive (scan_workers s ! k) = (if k < length cuts then Some (cuts ! k) else None)"
    and "minExclusive (scan_workers s ! k) = Some (own_key cuts (length splits) k) \<or>
      k = 0 \<and> minExclusive (scan_workers s ! k) = None \<and> next_key s = length splits"
    and "case phase (scan_workers s ! k) of Scanning i rows batch \<Rightarrow> set rows \<subseteq> set table \<and> set batch \<subseteq> set table | _ \<Rightarrow> True"
    and "scan_inv cfg table (lower_key splits cuts k) (upper_key splits cuts k) (set (sent s))
      (keys_at s (own_key cuts (length splits) k)) (scan_workers s ! k)"
  using assms unfolding snapshot_inv_def Let_def by blast+

text \<open>A move of worker \<open>k\<close>: what it changes and what it leaves.\<close>

lemma snapshot_inv_move:
  assumes inv: "snapshot_inv cfg table splits cuts s" and k: "k \<le> length cuts"
    and cuts: "distinct cuts" "set cuts \<subseteq> {1..<length splits}"
    and ws: "scan_workers s' = (scan_workers s)[k := w']"
    and keys: "\<And>a. a \<noteq> own_key cuts (length splits) k \<Longrightarrow> keys_at s' a = keys_at s a"
    and sent: "set (sent s) \<subseteq> set (sent s')" "set (sent s') \<subseteq> set table"
    and nk: "next_key s' = next_key s \<or> k = 0"
    and w': "maxInclusive w' = maxInclusive (scan_workers s ! k)" "minExclusive w' = Some (own_key cuts (length splits) k)"
      "case phase w' of Scanning i rows batch \<Rightarrow> set rows \<subseteq> set table \<and> set batch \<subseteq> set table | _ \<Rightarrow> True"
      "scan_inv cfg table (lower_key splits cuts k) (upper_key splits cuts k) (set (sent s'))
         (keys_at s' (own_key cuts (length splits) k)) w'"
  shows "snapshot_inv cfg table splits cuts s'"
  unfolding snapshot_inv_def
proof (intro conjI allI impI)
  show "length (scan_workers s') = Suc (length cuts)" using inv ws by (simp add: snapshot_inv_def)
  show "set (sent s') \<subseteq> set table" by (rule sent(2))
  fix j assume j: "j \<le> length cuts"
  have l: "length (scan_workers s) = Suc (length cuts)" using inv by (simp add: snapshot_inv_def)
  note J = snapshot_invD [OF inv j]
  show "let w = scan_workers s' ! j in
        maxInclusive w = (if j < length cuts then Some (cuts ! j) else None) \<and>
        (minExclusive w = Some (own_key cuts (length splits) j) \<or>
           j = 0 \<and> minExclusive w = None \<and> next_key s' = length splits) \<and>
        (case phase w of Scanning i rows batch \<Rightarrow> set rows \<subseteq> set table \<and> set batch \<subseteq> set table | _ \<Rightarrow> True) \<and>
        scan_inv cfg table (lower_key splits cuts j) (upper_key splits cuts j) (set (sent s'))
          (keys_at s' (own_key cuts (length splits) j)) w"
  proof (cases "j = k")
    case True
    then show ?thesis using J w' ws l k by (simp add: Let_def)
  next
    case False
    then have "own_key cuts (length splits) j \<noteq> own_key cuts (length splits) k"
      using own_key_inj [OF cuts j k] by blast
    then show ?thesis
      using J False ws nk keys scan_inv_mono [OF _ sent(1)] by (auto simp: Let_def)
  qed
qed

lemma upper_key_moves_up:
  assumes inv: "snapshot_inv cfg table splits cuts s" and k: "k \<le> length cuts"
    and u: "upto_key (upper_key splits cuts k) key"
  shows "upto_key (map_option (keys_at s) (maxInclusive (scan_workers s ! k))) key"
proof (cases "k < length cuts")
  case True
  have "maxInclusive (scan_workers s ! k) = Some (cuts ! k)" using snapshot_invD(1) [OF inv k] True by simp
  moreover have "scan_inv cfg table (lower_key splits cuts (Suc k)) (upper_key splits cuts (Suc k)) (set (sent s))
      (keys_at s (cuts ! k)) (scan_workers s ! Suc k)" "minExclusive (scan_workers s ! Suc k) \<noteq> None"
    using snapshot_invD [OF inv, of "Suc k"] True by (auto simp: own_key_def)
  ultimately show ?thesis
    using u True by (auto simp: upper_key_def upto_key_def scan_inv_def lower_key_def)
next
  case False
  then have "maxInclusive (scan_workers s ! k) = None" using snapshot_invD(1) [OF inv k] by simp
  then show ?thesis by (simp add: upto_key_def)
qed

lemma snapshot_step_move:
  assumes inv: "snapshot_inv cfg table splits cuts s" and step: "snapshot_step cfg s s'"
  obtains k own c' w' b where "k \<le> length cuts" "own = own_key cuts (length splits) k"
    "worker_move cfg own (map_option (keys_at s) (maxInclusive (scan_workers s ! k))) (keys_at s own)
       (scan_workers s ! k) c' w' b"
    "scan_workers s' = (scan_workers s)[k := w']" "keys_at s' = (keys_at s)(own := c')" "sent s' = sent s @ b"
    "next_key s' = next_key s \<or> k = 0"
  using step
proof cases
  case (worker_moves k)
  have k: "k \<le> length cuts" using worker_moves(2) inv by (simp add: snapshot_inv_def)
  have own: "minExclusive (scan_workers s ! k) = Some (own_key cuts (length splits) k) \<or>
      minExclusive (scan_workers s ! k) = None \<and> phase (scan_workers s ! k) = Querying \<and>
      own_key cuts (length splits) k = next_key s"
    "minExclusive (scan_workers s ! k) = None \<longrightarrow> k = 0"
    using snapshot_invD(2,4) [OF inv k] by (auto simp: own_key_def scan_inv_def)
  from scan_worker_step_move [OF refl worker_moves(3) own(1), of cfg] show ?thesis
    using that [OF k refl] worker_moves(1) own(2) by auto
qed

lemma snapshot_step_inv:
  assumes cfg: "key_columns_in_order cfg" "snapshot_table cfg table" "0 < snapshotBatchSize cfg"
    and cuts: "distinct cuts" "set cuts \<subseteq> {1..<length splits}"
    and inv: "snapshot_inv cfg table splits cuts s" and step: "snapshot_step cfg s s'"
  shows "snapshot_inv cfg table splits cuts s'"
proof -
  obtain k own c' w' b where k: "k \<le> length cuts" and own: "own = own_key cuts (length splits) k"
    and move: "worker_move cfg own (map_option (keys_at s) (maxInclusive (scan_workers s ! k))) (keys_at s own)
       (scan_workers s ! k) c' w' b"
    and s': "scan_workers s' = (scan_workers s)[k := w']" "keys_at s' = (keys_at s)(own := c')" "sent s' = sent s @ b"
      "next_key s' = next_key s \<or> k = 0"
    by (rule snapshot_step_move [OF inv step])
  have rows: "case phase w' of Scanning i rows batch \<Rightarrow> set rows \<subseteq> set table \<and> set batch \<subseteq> set table | _ \<Rightarrow> True"
    "set b \<subseteq> set table" "minExclusive w' = Some own" "maxInclusive w' = maxInclusive (scan_workers s ! k)"
    using worker_move_rows [OF cfg(2) move snapshot_invD(3) [OF inv k]] by blast+
  have w': "scan_inv cfg table (lower_key splits cuts k) (upper_key splits cuts k) (set (sent s) \<union> set b) c' w'"
    using worker_move_inv [OF cfg snapshot_invD(4) [OF inv k] _ move [unfolded own]] upper_key_moves_up [OF inv k] by blast
  have sent: "set (sent s) \<subseteq> set table" using inv by (simp add: snapshot_inv_def)
  show ?thesis
    by (rule snapshot_inv_move [OF inv k cuts s'(1)]) (use rows w' sent s' in \<open>simp_all add: own\<close>)
qed

lemma length_tiling [simp]: "length (tiling cuts) = Suc (length cuts)"
  by (simp add: tiling_def)

lemma tiling_nth:
  "k \<le> length cuts \<Longrightarrow> tiling cuts ! k =
     (if k = 0 then None else Some (cuts ! (k - 1)), if k < length cuts then Some (cuts ! k) else None)"
  by (auto simp: tiling_def nth_append nth_Cons')

lemma snapshot_start_inv:
  assumes "list_all (\<lambda>key. length key = pkCount cfg) splits" "set cuts \<subseteq> {1..<length splits}"
  shows "snapshot_inv cfg table splits cuts (snapshot_start splits (tiling cuts))"
proof -
  have "length (splits ! (cuts ! i)) = pkCount cfg" if "i < length cuts" for i
    using assms nth_mem [OF that] by (auto simp: list_all_length)
  then show ?thesis
    by (auto simp: snapshot_inv_def snapshot_start_def tiling_nth scan_inv_def covered_def own_key_def lower_key_def
        above_key_def Let_def)
qed

lemma snapshot_reach_inv:
  assumes cfg: "key_columns_in_order cfg" "snapshot_table cfg table" "0 < snapshotBatchSize cfg"
    and splits: "list_all (\<lambda>key. length key = pkCount cfg) splits"
    and cuts: "distinct cuts" "set cuts \<subseteq> {1..<length splits}"
    and run: "(snapshot_step cfg)\<^sup>*\<^sup>* (snapshot_start splits (tiling cuts)) s"
  shows "snapshot_inv cfg table splits cuts s"
  using run
proof (induction rule: rtranclp_induct)
  case base
  show ?case by (rule snapshot_start_inv [OF splits cuts(2)])
next
  case (step s s')
  then show ?case using snapshot_step_inv [OF cfg cuts] by blast
qed

lemma some_range:
  "\<exists>k \<le> length cuts. above_key (lower_key splits cuts k) key \<and> upto_key (upper_key splits cuts k) (key :: 'a :: linorder list)"
proof -
  let ?P = "\<lambda>k. upto_key (upper_key splits cuts k) key"
  have P: "?P (length cuts)" by (simp add: upper_key_def upto_key_def)
  define k where "k = (LEAST k. ?P k)"
  have k: "?P k" "k \<le> length cuts" unfolding k_def using P by (auto intro: LeastI Least_le)
  have "above_key (lower_key splits cuts k) key"
  proof (cases "k = 0")
    case False
    then have "\<not> ?P (k - 1)" unfolding k_def by (intro not_less_Least) simp
    then show ?thesis using False k(2) by (auto simp: above_key_def lower_key_def upto_key_def upper_key_def split: if_splits)
  qed (simp add: above_key_def lower_key_def)
  then show ?thesis using k by blast
qed


section \<open>The snapshot ends\<close>

definition rows_above :: "'a :: linorder snapshot_config \<Rightarrow> 'a list list \<Rightarrow> 'a list \<Rightarrow> nat" where
  "rows_above cfg table c = length (filter (\<lambda>r. c < row_key cfg r) table)"

definition query_work :: "'a snapshot_config \<Rightarrow> nat \<Rightarrow> nat" where
  "query_work cfg n = n * (length (pkPosition cfg) + 3) + 2"

text \<open>A bound on the moves a worker has left.\<close>

definition scan_work ::
  "'a :: linorder snapshot_config \<Rightarrow> 'a list list \<Rightarrow> 'a list \<Rightarrow> 'a scan_worker \<Rightarrow> nat" where
  "scan_work cfg table c w =
     (case phase w of
        Finished \<Rightarrow> 0
      | Querying \<Rightarrow> query_work cfg (if minExclusive w = None then length table else rows_above cfg table c)
      | Scanning i rows batch \<Rightarrow>
          (length (pkPosition cfg) + 1) * length rows - i + 1 +
          (if length (batch @ rows) = snapshotBatchSize cfg
           then query_work cfg (rows_above cfg table (row_key cfg (last (batch @ rows)))) else 0))"

lemma sorted_le_last:
  "sorted_wrt (\<lambda>r r'. f r < f r') q \<Longrightarrow> r \<in> set q \<Longrightarrow> f r \<le> (f (last q) :: 'b :: order)"
proof (induction q)
  case (Cons x q)
  then show ?case by (cases "q = []") (auto dest: last_in_set intro: less_imp_le)
qed simp

lemma first_rows_left:
  assumes t: "snapshot_table cfg table"
    and q: "q = take l (filter (\<lambda>r. above_key mn (row_key cfg r) \<and> P r) table)" "q \<noteq> []"
  shows "length q + rows_above cfg table (row_key cfg (last q)) \<le>
    (case mn of None \<Rightarrow> length table | Some c \<Rightarrow> rows_above cfg table c)"
proof -
  have st: "sorted_wrt (\<lambda>r r'. row_key cfg r < row_key cfg r') table" using t by (simp add: snapshot_table_def)
  then have sq: "sorted_wrt (\<lambda>r r'. row_key cfg r < row_key cfg r') q"
    unfolding q(1) by (intro sorted_wrt_take sorted_wrt_filter)
  have dist: "distinct xs" if "sorted_wrt (\<lambda>r r'. row_key cfg r < row_key cfg r') xs" for xs
    using that by (induction xs) auto
  let ?hi = "filter (\<lambda>r. row_key cfg (last q) < row_key cfg r) table"
  note le = sorted_le_last [OF sq]
  have sub: "set q \<subseteq> set (filter (\<lambda>r. above_key mn (row_key cfg r)) table)"
    unfolding q(1) by (auto dest: in_set_takeD)
  have "above_key mn (row_key cfg (last q))" using sub q(2) last_in_set by auto
  then have "set q \<union> set ?hi \<subseteq> set (filter (\<lambda>r. above_key mn (row_key cfg r)) table)"
    using sub by (auto simp: above_key_def split: option.splits)
  moreover have "set q \<inter> set ?hi = {}" using le by fastforce
  moreover have "length q = card (set q)" "length ?hi = card (set ?hi)"
    "length (filter (\<lambda>r. above_key mn (row_key cfg r)) table) = card (set (filter (\<lambda>r. above_key mn (row_key cfg r)) table))"
    using dist [OF sq] dist [OF st] by (simp_all only: distinct_card distinct_filter)
  ultimately have "length q + length ?hi \<le> length (filter (\<lambda>r. above_key mn (row_key cfg r)) table)"
    by (metis List.finite_set card_Un_disjoint card_mono)
  then show ?thesis by (auto simp: rows_above_def above_key_def split: option.splits)
qed

lemma query_work_less:
  assumes "snapshot_table cfg table" "0 < snapshotBatchSize cfg"
    and "q = query cfg mn mx (snapshotBatchSize cfg)" "phase w' = Scanning 0 q []"
  shows "scan_work cfg table c' w' <
    query_work cfg (case mn of None \<Rightarrow> length table | Some c \<Rightarrow> rows_above cfg table c)"
proof -
  let ?n = "case mn of None \<Rightarrow> length table | Some c \<Rightarrow> rows_above cfg table c"
  let ?C = "length (pkPosition cfg)"
  have q: "q = take (snapshotBatchSize cfg) (filter (\<lambda>r. above_key mn (row_key cfg r) \<and> upto_key mx (row_key cfg r)) table)"
    using assms(1,3) by (simp add: snapshot_table_def)
  show ?thesis
  proof (cases "q = []")
    case True
    then show ?thesis using assms(2,4) by (simp add: scan_work_def query_work_def)
  next
    case False
    let ?m = "rows_above cfg table (row_key cfg (last q))"
    have l: "length q + ?m \<le> ?n" by (rule first_rows_left [OF assms(1) q False])
    have "(?C + 1) * length q + 1 + (?m * (?C + 3) + 2) < ?n * (?C + 3) + 2"
    proof -
      have "length q * (?C + 3) + ?m * (?C + 3) \<le> ?n * (?C + 3)"
        using mult_le_mono1 [OF l, of "?C + 3"] by (simp add: distrib_right)
      moreover have "1 \<le> length q" using False by (cases q) auto
      ultimately show ?thesis by (simp add: algebra_simps)
    qed
    then show ?thesis using assms(4) by (auto simp: scan_work_def query_work_def)
  qed
qed

lemma column_work_less:
  assumes "phase w = Scanning i (row # rows) batch" "i < length row" "length row = length (pkPosition cfg)"
    "phase w' = Scanning (Suc i) (row # rows) batch"
  shows "scan_work cfg table c' w' < scan_work cfg table c w"
  using assms by (simp add: scan_work_def)

lemma row_work_less:
  assumes "phase w = Scanning i (row # rows) batch" "i = length row" "length row = length (pkPosition cfg)"
    "phase w' = Scanning 0 rows (batch @ [row])"
  shows "scan_work cfg table c' w' < scan_work cfg table c w"
  using assms by (simp add: scan_work_def)

lemma batch_work_less:
  assumes "0 < snapshotBatchSize cfg" "scan_inv cfg table lo hi S c w" "phase w = Scanning i [] batch"
    "minExclusive w' = minExclusive w" "phase w' = (if length batch < snapshotBatchSize cfg then Finished else Querying)"
    "length batch \<le> snapshotBatchSize cfg"
  shows "scan_work cfg table c w' < scan_work cfg table c w"
proof (cases "length batch < snapshotBatchSize cfg")
  case True
  then show ?thesis using assms by (simp add: scan_work_def)
next
  case False
  then have "batch \<noteq> []" "length batch = snapshotBatchSize cfg" using assms(1,6) by auto
  moreover have "c = row_key cfg (last batch)" "minExclusive w \<noteq> None" "i = 0"
    using assms(2,3) \<open>batch \<noteq> []\<close> by (auto simp: scan_inv_def scanning_inv_def)
  ultimately show ?thesis using assms by (auto simp: scan_work_def)
qed

definition snapshot_work ::
  "'a :: linorder snapshot_config \<Rightarrow> 'a list list \<Rightarrow> 'a list list \<Rightarrow> nat list \<Rightarrow> 'a snapshot_state \<Rightarrow> nat" where
  "snapshot_work cfg table splits cuts s =
     (\<Sum>k\<le>length cuts. scan_work cfg table (keys_at s (own_key cuts (length splits) k)) (scan_workers s ! k))"

text \<open>A batch never exceeds its limit.\<close>

definition batch_bounded :: "'a snapshot_config \<Rightarrow> 'a scan_worker \<Rightarrow> bool" where
  "batch_bounded cfg w \<longleftrightarrow>
     (case phase w of Scanning i rows batch \<Rightarrow> length batch + length rows \<le> snapshotBatchSize cfg | _ \<Rightarrow> True)"

lemma worker_move_bounded:
  "snapshot_table cfg table \<Longrightarrow> worker_move cfg own mx c w c' w' b \<Longrightarrow> batch_bounded cfg w \<Longrightarrow> batch_bounded cfg w'"
  by (auto simp: batch_bounded_def snapshot_table_def elim!: worker_move.cases)

lemma worker_move_work:
  assumes cfg: "snapshot_table cfg table" "0 < snapshotBatchSize cfg"
    and inv: "scan_inv cfg table lo hi S c w" "batch_bounded cfg w"
    and move: "worker_move cfg own mx c w c' w' b"
  shows "scan_work cfg table c' w' < scan_work cfg table c w"
proof -
  have row: "length row = length (pkPosition cfg) \<and> i \<le> length row" if "phase w = Scanning i (row # rows) batch" for i row rows batch
    using inv(1) cfg(1) that by (auto simp: scan_inv_def scanning_inv_def snapshot_table_def list_all_iff)
  show ?thesis
    using move
  proof cases
    case first_query
    then show ?thesis using query_work_less [OF cfg refl, of w' None mx] by (simp add: scan_work_def [of cfg table c w])
  next
    case next_query
    then show ?thesis using query_work_less [OF cfg refl, of w' "Some c" mx] by (simp add: scan_work_def [of cfg table c w])
  next
    case next_column
    then show ?thesis using column_work_less row by fastforce
  next
    case (next_row i row rows batch)
    then show ?thesis using row_work_less [of w i row rows batch] row by fastforce
  next
    case send_batch
    then show ?thesis using batch_work_less [OF cfg(2) inv(1)] inv(2) by (simp add: batch_bounded_def)
  qed
qed

lemma snapshot_step_work:
  assumes cfg: "snapshot_table cfg table" "0 < snapshotBatchSize cfg"
    and cuts: "distinct cuts" "set cuts \<subseteq> {1..<length splits}"
    and inv: "snapshot_inv cfg table splits cuts s" "list_all (batch_bounded cfg) (scan_workers s)"
    and step: "snapshot_step cfg s s'"
  shows "snapshot_work cfg table splits cuts s' < snapshot_work cfg table splits cuts s"
    and "list_all (batch_bounded cfg) (scan_workers s')"
proof -
  obtain k own c' w' b where k: "k \<le> length cuts" and own: "own = own_key cuts (length splits) k"
    and move: "worker_move cfg own (map_option (keys_at s) (maxInclusive (scan_workers s ! k))) (keys_at s own)
       (scan_workers s ! k) c' w' b"
    and s': "scan_workers s' = (scan_workers s)[k := w']" "keys_at s' = (keys_at s)(own := c')"
    by (rule snapshot_step_move [OF inv(1) step])
  have l: "length (scan_workers s) = Suc (length cuts)" using inv(1) by (simp add: snapshot_inv_def)
  have b: "batch_bounded cfg (scan_workers s ! k)" using inv(2) k l by (simp add: list_all_length)
  show "list_all (batch_bounded cfg) (scan_workers s')"
    using inv(2) worker_move_bounded [OF cfg(1) move b] by (auto simp: s' list_all_iff dest: set_update_subset_insert [THEN subsetD])
  have less: "scan_work cfg table c' w' < scan_work cfg table (keys_at s own) (scan_workers s ! k)"
    using worker_move_work [OF cfg _ b move] snapshot_invD(4) [OF inv(1) k] own by blast
  have same: "scan_work cfg table (keys_at s' (own_key cuts (length splits) j)) (scan_workers s' ! j) =
      scan_work cfg table (keys_at s (own_key cuts (length splits) j)) (scan_workers s ! j)"
    if "j \<le> length cuts" "j \<noteq> k" for j
    using own_key_inj [OF cuts that(1) k] that s' own by auto
  show "snapshot_work cfg table splits cuts s' < snapshot_work cfg table splits cuts s"
    unfolding snapshot_work_def
  proof (rule sum_strict_mono_ex1)
    show "\<forall>j\<in>{..length cuts}. scan_work cfg table (keys_at s' (own_key cuts (length splits) j)) (scan_workers s' ! j) \<le>
        scan_work cfg table (keys_at s (own_key cuts (length splits) j)) (scan_workers s ! j)"
      using same less k l s' own by (metis atMost_iff fun_upd_same le_imp_less_Suc less_imp_le nth_list_update_eq order_refl)
    show "\<exists>j\<in>{..length cuts}. scan_work cfg table (keys_at s' (own_key cuts (length splits) j)) (scan_workers s' ! j) <
        scan_work cfg table (keys_at s (own_key cuts (length splits) j)) (scan_workers s ! j)"
      using less k l s' own by (intro bexI [of _ k]) simp_all
  qed simp
qed

lemma snapshot_start_work:
  "snapshot_work cfg table splits cuts (snapshot_start splits (tiling cuts)) \<le>
     Suc (length cuts) * query_work cfg (length table)"
proof -
  have "scan_work cfg table c (scan_workers (snapshot_start splits (tiling cuts)) ! k) \<le> query_work cfg (length table)"
    if "k \<le> length cuts" for k c
    using that by (auto simp: scan_work_def snapshot_start_def tiling_nth query_work_def rows_above_def)
  then show ?thesis unfolding snapshot_work_def using sum_bounded_above [of "{..length cuts}" _ "query_work cfg (length table)"]
    by (metis (no_types, lifting) atMost_iff card_atMost of_nat_id)
qed


section \<open>Examples\<close>

definition example_snapshot :: "nat option list \<Rightarrow> nat \<Rightarrow> nat \<Rightarrow> int list list \<Rightarrow> int snapshot_config" where
  "example_snapshot ps n limit table =
     (let base = \<lparr>query = (\<lambda>_ _ _. []), pkPosition = ps, pkCount = n, snapshotBatchSize = limit, nil_value = 0\<rparr> in
      base\<lparr>query := (\<lambda>mn mx l. take l (filter (\<lambda>r. above_key mn (row_key base r) \<and> upto_key mx (row_key base r)) table))\<rparr>)"

lemma example_query:
  "query (example_snapshot ps n limit table) mn mx l =
     take l (filter (\<lambda>r. above_key mn (row_key (example_snapshot ps n limit table) r) \<and>
       upto_key mx (row_key (example_snapshot ps n limit table) r)) table)"
  by (simp add: example_snapshot_def Let_def row_key_def written_def write_column_def)

lemma example_snapshot_table:
  assumes "list_all (\<lambda>row. length row = length ps) table"
    and "sorted_wrt (\<lambda>r r'. row_key (example_snapshot ps n limit table) r < row_key (example_snapshot ps n limit table) r') table"
  shows "snapshot_table (example_snapshot ps n limit table) table"
proof -
  have "pkPosition (example_snapshot ps n limit table) = ps" by (simp add: example_snapshot_def Let_def)
  then show ?thesis using assms example_query by (simp add: snapshot_table_def)
qed

lemma fold_reach:
  assumes "list_all (\<lambda>k. k < length (scan_workers s)) ks"
  shows "(snapshot_step cfg)\<^sup>*\<^sup>* s (fold (scan_worker_step cfg) ks s)"
  using assms
proof (induction ks arbitrary: s)
  case (Cons k ks)
  have l: "length (scan_workers (scan_worker_step cfg k s)) = length (scan_workers s)"
    by (simp add: scan_worker_step_def scan_query_def Let_def split: scan_phase.split list.split option.split)
  have "(snapshot_step cfg)\<^sup>*\<^sup>* s (scan_worker_step cfg k s)"
  proof (cases "phase (scan_workers s ! k) = Finished")
    case True
    then show ?thesis by (simp add: scan_worker_step_def)
  next
    case False
    then show ?thesis using Cons.prems by (auto intro: worker_moves)
  qed
  then show ?case using Cons l by (auto intro: rtranclp_trans)
qed simp

text \<open>Three rows in one key column, read one at a time by two workers.\<close>

definition three_rows :: "int snapshot_config" where
  "three_rows = example_snapshot [Some 0] 1 1 [[1], [2], [3]]"

definition twice_run :: "int snapshot_state" where
  "twice_run = fold (scan_worker_step three_rows)
     ([1, 1] @ replicate 10 0 @ replicate 8 1) (snapshot_start [[0], [1]] [(None, Some 1), (Some 1, None)])"

text \<open>Three rows with the key columns in the opposite order of the key, read by two workers.\<close>

definition swapped_rows :: "int snapshot_config" where
  "swapped_rows = example_snapshot [Some 1, Some 0] 2 2 [[3, 1], [5, 1], [0, 2]]"

definition lost_run :: "int snapshot_state" where
  "lost_run = fold (scan_worker_step swapped_rows) [1, 1, 0, 0, 1, 1, 1]
     (snapshot_start [[1, 1], [1, 5]] [(None, Some 1), (Some 1, None)])"

lemma plan_two: "plan_ranges 2 2 = Ok (Some [(None, Some 1), (Some 1, None)])"
  by (simp add: plan_ranges_def chunk_size_def plan_loop.simps)

lemma three_rows_table: "snapshot_table three_rows [[1], [2], [3]]"
  unfolding three_rows_def by (rule example_snapshot_table) code_simp+

lemma three_rows_in_order: "key_columns_in_order three_rows" "0 < snapshotBatchSize three_rows" "pkCount three_rows = 1"
  "length (pkPosition three_rows) = 1"
  by (simp_all add: key_columns_in_order_def three_rows_def example_snapshot_def Let_def map_filter_simps)

lemma swapped_rows_table: "snapshot_table swapped_rows [[3, 1], [5, 1], [0, 2]]"
  unfolding swapped_rows_def by (rule example_snapshot_table) code_simp+

lemma twice_run_result: "sent twice_run = [[1], [2], [2], [3]] \<and> snapshot_done twice_run"
  by code_simp

lemma lost_run_result: "sent lost_run = [[0, 2]] \<and> snapshot_done lost_run"
  by code_simp

lemma twice_run_reach:
  "(snapshot_step three_rows)\<^sup>*\<^sup>* (snapshot_start [[0], [1]] [(None, Some 1), (Some 1, None)]) twice_run"
  unfolding twice_run_def by (rule fold_reach) (simp add: snapshot_start_def list_all_iff)





section \<open>One worker reads each row once\<close>

lemma sorted_rest:
  assumes "sorted_wrt (\<lambda>r r'. row_key cfg r < row_key cfg r') table" "0 < n"
    and "F = filter (\<lambda>r. above_key mn (row_key cfg r)) table" "n \<le> length F"
  shows "drop n F = filter (\<lambda>r. row_key cfg (last (take n F)) < row_key cfg r) table"
proof -
  let ?P = "\<lambda>r. row_key cfg (last (take n F)) < row_key cfg r"
  have F: "sorted_wrt (\<lambda>r r'. row_key cfg r < row_key cfg r') (take n F @ drop n F)"
    using assms(1,3) by (simp add: sorted_wrt_filter)
  have ne: "take n F \<noteq> []" using assms(2,4) by auto
  have last: "last (take n F) \<in> set F" using ne last_in_set in_set_takeD by metis
  have "filter ?P (take n F) = []"
    using sorted_le_last [of "row_key cfg" "take n F"] F by (auto simp: filter_empty_conv sorted_wrt_append not_less)
  moreover have "\<forall>y \<in> set (drop n F). ?P y"
    using F last_in_set [OF ne] unfolding sorted_wrt_append by blast
  then have "filter ?P (drop n F) = drop n F" by (simp add: filter_id_conv)
  ultimately have "drop n F = filter ?P (take n F @ drop n F)" unfolding filter_append by simp
  also have "\<dots> = filter ?P table"
    using last unfolding append_take_drop_id assms(3) filter_filter
    by (intro filter_cong) (auto simp: above_key_def split: option.splits)
  finally show ?thesis .
qed

text \<open>What a worker on the whole table has not sent yet.\<close>

definition pending :: "'a :: linorder snapshot_config \<Rightarrow> 'a list list \<Rightarrow> 'a list \<Rightarrow> 'a scan_worker \<Rightarrow> 'a list list" where
  "pending cfg table c w =
     (case phase w of
        Finished \<Rightarrow> []
      | Querying \<Rightarrow> filter (\<lambda>r. above_key (if minExclusive w = None then None else Some c) (row_key cfg r)) table
      | Scanning i rows batch \<Rightarrow> (batch @ rows) @
          (if length (batch @ rows) = snapshotBatchSize cfg
           then filter (\<lambda>r. row_key cfg (last (batch @ rows)) < row_key cfg r) table else []))"

lemma query_pending:
  assumes "snapshot_table cfg table" "0 < snapshotBatchSize cfg"
    and "phase w' = Scanning 0 (query cfg mn None (snapshotBatchSize cfg)) []"
  shows "pending cfg table c' w' = filter (\<lambda>r. above_key mn (row_key cfg r)) table"
proof -
  define F where "F = filter (\<lambda>r. above_key mn (row_key cfg r)) table"
  have q: "query cfg mn None (snapshotBatchSize cfg) = take (snapshotBatchSize cfg) F"
    using assms(1) by (simp add: snapshot_table_def upto_key_def F_def)
  show ?thesis
  proof (cases "snapshotBatchSize cfg \<le> length F")
    case True
    then have "filter (\<lambda>r. row_key cfg (last (take (snapshotBatchSize cfg) F)) < row_key cfg r) table =
        drop (snapshotBatchSize cfg) F"
      using sorted_rest [OF _ assms(2) F_def] assms(1) by (simp add: snapshot_table_def)
    then show ?thesis using True assms(3) by (simp add: pending_def q flip: F_def)
  next
    case False
    then show ?thesis using assms(3) by (simp add: pending_def q flip: F_def)
  qed
qed

lemma worker_move_pending:
  assumes cfg: "snapshot_table cfg table" "0 < snapshotBatchSize cfg"
    and inv: "scan_inv cfg table None None S c w" "batch_bounded cfg w"
    and move: "worker_move cfg own None c w c' w' b"
  shows "b @ pending cfg table c' w' = pending cfg table c w"
  using move
proof cases
  case first_query
  then show ?thesis using query_pending [OF cfg, of w' None c'] by (simp add: pending_def [of cfg table c w])
next
  case next_query
  then show ?thesis using query_pending [OF cfg, of w' "Some c" c'] by (simp add: pending_def [of cfg table c w])
next
  case next_column
  then show ?thesis by (simp add: pending_def)
next
  case next_row
  then show ?thesis by (simp add: pending_def)
next
  case (send_batch i)
  moreover have "c = row_key cfg (last b)" if "length b = snapshotBatchSize cfg"
    using inv(1) send_batch that cfg(2) by (auto simp: scan_inv_def scanning_inv_def)
  ultimately show ?thesis using inv(2) by (auto simp: pending_def batch_bounded_def above_key_def)
qed

lemma single_step:
  assumes cfg: "key_columns_in_order cfg" "snapshot_table cfg table" "0 < snapshotBatchSize cfg"
    and inv: "snapshot_inv cfg table splits [] s" "list_all (batch_bounded cfg) (scan_workers s)"
      "sent s @ pending cfg table (keys_at s (length splits)) (scan_workers s ! 0) = table"
    and step: "snapshot_step cfg s s'"
  shows "sent s' @ pending cfg table (keys_at s' (length splits)) (scan_workers s' ! 0) = table"
proof -
  let ?w = "scan_workers s ! 0"
  obtain k own c' w' b where k: "k \<le> length ([] :: nat list)" and own: "own = own_key [] (length splits) k"
    and move: "worker_move cfg own (map_option (keys_at s) (maxInclusive (scan_workers s ! k))) (keys_at s own)
       (scan_workers s ! k) c' w' b"
    and s': "scan_workers s' = (scan_workers s)[k := w']" "keys_at s' = (keys_at s)(own := c')" "sent s' = sent s @ b"
    by (rule snapshot_step_move [OF inv(1) step])
  have w: "length (scan_workers s) = 1" "maxInclusive ?w = None" "own = length splits"
    "scan_inv cfg table None None (set (sent s)) (keys_at s own) ?w"
    using inv(1) snapshot_invD [OF inv(1), of 0] k own
    by (auto simp: snapshot_inv_def own_key_def lower_key_def upper_key_def)
  have "batch_bounded cfg ?w" using inv(2) w(1) by (simp add: list_all_length)
  from worker_move_pending [OF cfg(2,3) w(4) this] move inv(3) k w show ?thesis
    by (simp add: s')
qed


definition single_run :: "int snapshot_state" where
  "single_run = fold (scan_worker_step three_rows) (replicate 14 0) (snapshot_start [[0], [1]] [(None, None)])"

lemma single_run_done: "snapshot_done single_run"
  by code_simp


end
