(* ===== verification/Spec2Isabelle.thy ===== *)
theory Spec2Isabelle
  imports Int128_Decimal Snowflake_Schema PG_Snapshot
begin

text \<open>
  Verification library for the data path of Redpanda Connect.
\<close>

end
